theory Spec2Isabelle
  imports Complex_Main "HOL-Library.Log_Nat"
begin

section \<open>Game of Life on a wrapping grid (gol.py)\<close>

subsection \<open>Cells, grids and Python list access\<close>

text \<open>
  The program stores a cell as a one-character string: \<open>dead_c = '-'\<close> and
  \<open>alive_c = 'x'\<close>. A grid is a list of rows, a row a list of cells; nothing in the
  types forces a cell to be one of the two characters or the rows to have equal length.
\<close>

type_synonym cell = char
type_synonym grid = "cell list list"

definition dead_c :: cell where
  "dead_c = CHR ''-''"

definition alive_c :: cell where
  "alive_c = CHR ''x''"

text \<open>The exceptions of the Python runtime that the modelled functions can raise.\<close>

datatype py_error = IndexError | ValueError | TypeError | OverflowError

text \<open>Sequencing of computations that may raise: the first exception wins.\<close>

definition bnd :: "py_error + 'a \<Rightarrow> ('a \<Rightarrow> py_error + 'b) \<Rightarrow> py_error + 'b" where
  "bnd m f = (case m of Inl e \<Rightarrow> Inl e | Inr v \<Rightarrow> f v)"

text \<open>
  \<open>xs[i]\<close> in Python: an index from \<open>-len(xs)\<close> to \<open>-1\<close> counts from the end,
  any index outside \<open>-len(xs) .. len(xs) - 1\<close> raises \<open>IndexError\<close>.
\<close>

definition py_getitem :: "'a list \<Rightarrow> int \<Rightarrow> py_error + 'a" where
  "py_getitem xs i =
     (if 0 \<le> i \<and> i < int (length xs) then Inr (xs ! nat i)
      else if i < 0 \<and> - int (length xs) \<le> i then Inr (xs ! nat (int (length xs) + i))
      else Inl IndexError)"

text \<open>\<open>xs[i] = v\<close> in Python, with the same index rule; the updated list is returned.\<close>

definition py_setitem :: "'a list \<Rightarrow> int \<Rightarrow> 'a \<Rightarrow> py_error + 'a list" where
  "py_setitem xs i v =
     (if 0 \<le> i \<and> i < int (length xs) then Inr (xs[nat i := v])
      else if i < 0 \<and> - int (length xs) \<le> i then Inr (xs[nat (int (length xs) + i) := v])
      else Inl IndexError)"

subsection \<open>Border wrapping and neighbour counting\<close>

text \<open>
  \<open>wrap_border\<close> measures the grid it is given: \<open>rows = len(grid)\<close> and
  \<open>cols = len(grid[0])\<close>, where \<open>grid[0]\<close> raises on an empty grid. Each
  coordinate is shifted by at most one grid dimension.
\<close>

definition wrap_border :: "int \<Rightarrow> int \<Rightarrow> grid \<Rightarrow> py_error + (int \<times> int)" where
  "wrap_border x y grid =
     bnd (py_getitem grid 0) (\<lambda>row0.
       let rows = int (length grid);
           cols = int (length row0);
           x1 = (if x \<ge> cols then x - cols else if x < 0 then cols + x else x);
           y1 = (if y \<ge> rows then y - rows else if y < 0 then rows + y else y)
       in Inr (x1, y1))"

definition get_coordinate_value :: "int \<Rightarrow> int \<Rightarrow> grid \<Rightarrow> py_error + bool" where
  "get_coordinate_value x y grid =
     bnd (wrap_border x y grid) (\<lambda>(x1, y1).
     bnd (py_getitem grid y1) (\<lambda>row.
     bnd (py_getitem row x1) (\<lambda>v.
       Inr (v = alive_c))))"

text \<open>The eight lookups of \<open>sum_adjecent_fields\<close>, in the order of the source.\<close>

definition count_if :: "bool \<Rightarrow> int \<Rightarrow> int" where
  "count_if b sum_fields = (if b then sum_fields + 1 else sum_fields)"

definition sum_adjecent_fields :: "int \<Rightarrow> int \<Rightarrow> grid \<Rightarrow> py_error + int" where
  "sum_adjecent_fields x y grid =
     bnd (get_coordinate_value (x - 1) y grid) (\<lambda>a1.
     bnd (get_coordinate_value (x - 1) (y - 1) grid) (\<lambda>a2.
     bnd (get_coordinate_value (x - 1) (y + 1) grid) (\<lambda>a3.
     bnd (get_coordinate_value (x + 1) y grid) (\<lambda>a4.
     bnd (get_coordinate_value (x + 1) (y - 1) grid) (\<lambda>a5.
     bnd (get_coordinate_value (x + 1) (y + 1) grid) (\<lambda>a6.
     bnd (get_coordinate_value x (y - 1) grid) (\<lambda>a7.
     bnd (get_coordinate_value x (y + 1) grid) (\<lambda>a8.
       Inr (count_if a8 (count_if a7 (count_if a6 (count_if a5
             (count_if a4 (count_if a3 (count_if a2 (count_if a1 0))))))))))))))))"

definition decide_fate :: "int \<Rightarrow> int \<Rightarrow> int \<Rightarrow> grid \<Rightarrow> py_error + cell" where
  "decide_fate x y sum_fields grid =
     bnd (get_coordinate_value x y grid) (\<lambda>is_alive.
       let s = (if is_alive then sum_fields + 1 else sum_fields)
       in if s = 3 then Inr alive_c
          else if s = 4 then Inr (if is_alive then alive_c else dead_c)
          else Inr dead_c)"

text \<open>
  The rule in the words of the specification: an alive cell survives with 2 or 3 live
  neighbours, a dead cell becomes alive with exactly 3, everything else is dead.
\<close>

definition classic_rule :: "bool \<Rightarrow> int \<Rightarrow> cell" where
  "classic_rule alive n =
     (if alive then (if n = 2 \<or> n = 3 then alive_c else dead_c)
      else (if n = 3 then alive_c else dead_c))"

subsection \<open>Rendering\<close>

text \<open>
  \<open>draw\<close> writes every value of every row of the grid it is given, row \<open>i\<close> on
  screen line \<open>i + 1\<close> and column \<open>j\<close> on screen column \<open>j + 1\<close>. The screen is
  the parameter \<open>ok\<close>: whether \<open>stdscr.addstr\<close> succeeds at a position. On a
  \<open>curses.error\<close> the source executes \<open>raise ResizeError\<close>; the class's
  constructor requires the argument \<open>msg\<close>, so what is raised is a \<open>TypeError\<close>.
  The result is the list of \<open>addstr\<close> calls (line, column, text, colour pair).
\<close>

type_synonym addstr_call = "int \<times> int \<times> cell \<times> nat"

fun draw_row :: "(int \<Rightarrow> int \<Rightarrow> bool) \<Rightarrow> int \<Rightarrow> int \<Rightarrow> cell list \<Rightarrow> py_error + addstr_call list" where
  "draw_row ok y_cnt x_cnt [] = Inr []"
| "draw_row ok y_cnt x_cnt (v # row) =
     (if ok y_cnt x_cnt
      then bnd (draw_row ok y_cnt (x_cnt + 1) row) (\<lambda>calls.
             Inr ((y_cnt, x_cnt, v, if v = alive_c then 2 else 1) # calls))
      else Inl TypeError)"

fun draw_rows :: "(int \<Rightarrow> int \<Rightarrow> bool) \<Rightarrow> int \<Rightarrow> grid \<Rightarrow> py_error + addstr_call list" where
  "draw_rows ok y_cnt [] = Inr []"
| "draw_rows ok y_cnt (row # rest) =
     bnd (draw_row ok y_cnt 1 row) (\<lambda>calls.
     bnd (draw_rows ok (y_cnt + 1) rest) (\<lambda>more.
       Inr (calls @ more)))"

definition draw :: "(int \<Rightarrow> int \<Rightarrow> bool) \<Rightarrow> grid \<Rightarrow> py_error + addstr_call list" where
  "draw ok grid = draw_rows ok 1 grid"

subsection \<open>Grid creation\<close>

definition x_padding :: int where
  "x_padding = 1"

definition y_padding :: int where
  "y_padding = 7"

text \<open>The window size \<open>(max_y, max_x)\<close> is what \<open>stdscr.getmaxyx()\<close> returns.\<close>

definition get_grid_dimensions :: "int \<times> int \<Rightarrow> int \<times> int" where
  "get_grid_dimensions maxyx =
     (case maxyx of (max_y, max_x) \<Rightarrow> (max_x - x_padding - 2, max_y - y_padding - 3))"

text \<open>
  The number of seeding trials is \<open>int((seed_percentage / 100.0) * (rows * cols))\<close>,
  computed in binary64 floating point. \<open>to_double\<close> is round-to-nearest, ties to
  even, with a 53-bit significand, on the rationals: \<open>e\<close> is the binary exponent
  of the argument and \<open>m\<close> its rounded significand, between \<open>2^52\<close> and
  \<open>2^53\<close>. A result that reaches \<open>2^1024\<close> is an \<open>OverflowError\<close>
  (raised by the conversion of a long integer, or by \<open>int\<close> applied to infinity).
  Subnormal numbers are not modelled: a nonzero integer divided by 100, and its product
  with a nonzero integer, are at least 1/100 in magnitude. \<open>int\<close> truncates toward
  zero.
\<close>

definition pow2 :: "int \<Rightarrow> rat" where
  "pow2 e = (if 0 \<le> e then 2 ^ nat e else 1 / 2 ^ nat (- e))"

definition floor_log2 :: "rat \<Rightarrow> int" where
  "floor_log2 q =
     (case quotient_of q of (a, b) \<Rightarrow>
        let e0 = bitlen a - bitlen b
        in if pow2 e0 \<le> q then e0 else e0 - 1)"

definition round_half_even :: "rat \<Rightarrow> int" where
  "round_half_even q =
     (let f = \<lfloor>q\<rfloor>; d = q - of_int f
      in if d < 1 / 2 then f
         else if 1 / 2 < d then f + 1
         else if even f then f else f + 1)"

definition to_double :: "rat \<Rightarrow> py_error + rat" where
  "to_double q =
     (if q = 0 then Inr 0
      else let a = \<bar>q\<bar>;
               e = floor_log2 a;
               m = round_half_even (a * pow2 (52 - e))
           in if 1023 < e \<or> (e = 1023 \<and> 2 ^ 53 \<le> m) then Inl OverflowError
              else Inr (sgn q * of_int m * pow2 (e - 52)))"

definition py_int :: "rat \<Rightarrow> int" where
  "py_int q = (if 0 \<le> q then \<lfloor>q\<rfloor> else \<lceil>q\<rceil>)"

definition seed_count :: "int \<Rightarrow> int \<Rightarrow> int \<Rightarrow> py_error + int" where
  "seed_count seed_percentage rows cols =
     bnd (to_double (of_int seed_percentage)) (\<lambda>sp.
     bnd (to_double (sp / 100)) (\<lambda>p.
     bnd (to_double (of_int (rows * cols))) (\<lambda>n.
     bnd (to_double (p * n)) (\<lambda>prod.
       Inr (py_int prod)))))"

text \<open>
  \<open>random.randint(a, b)\<close> returns an integer from \<open>a\<close> to \<open>b\<close>, both included,
  each with the same probability, and raises \<open>ValueError\<close> on an empty range. The
  random generator is a stream of natural numbers \<open>rnd\<close>, read at an index; \<open>r\<close>
  is the number drawn, reduced modulo the size of the range, so that the numbers below a
  multiple of that size give every value equally often.
\<close>

definition randint :: "int \<Rightarrow> int \<Rightarrow> nat \<Rightarrow> py_error + int" where
  "randint a b r = (if b < a then Inl ValueError else Inr (a + int (r mod nat (b - a + 1))))"

text \<open>A random stream for the calls that draw no number (the unseeded grid).\<close>

definition rnd0 :: "nat \<Rightarrow> nat" where
  "rnd0 i = 0"

text \<open>\<open>grid[y][x] = v\<close>: the row is looked up, then updated in place.\<close>

definition set_cell :: "grid \<Rightarrow> int \<Rightarrow> int \<Rightarrow> cell \<Rightarrow> py_error + grid" where
  "set_cell grid x y v =
     bnd (py_getitem grid y) (\<lambda>row.
     bnd (py_setitem row x v) (\<lambda>row1.
       py_setitem grid y row1))"

text \<open>The seeding loop: \<open>k\<close> trials are left, \<open>i\<close> is the index into the random stream.\<close>

fun seed_loop :: "(nat \<Rightarrow> nat) \<Rightarrow> nat \<Rightarrow> int \<Rightarrow> int \<Rightarrow> nat \<Rightarrow> grid \<Rightarrow> py_error + grid" where
  "seed_loop rnd i rows cols 0 grid = Inr grid"
| "seed_loop rnd i rows cols (Suc k) grid =
     bnd (randint 0 (rows - 1) (rnd i)) (\<lambda>y.
     bnd (randint 0 (cols - 1) (rnd (i + 1))) (\<lambda>x.
     bnd (set_cell grid x y alive_c) (\<lambda>grid1.
       seed_loop rnd (i + 2) rows cols k grid1)))"

text \<open>
  \<open>xrange(0, seeds)\<close> takes machine integers only: a trial count above
  \<open>sys.maxint\<close> or below \<open>-sys.maxint - 1\<close> (here those of a 64-bit platform)
  is an \<open>OverflowError\<close>; a count in that range that is not positive gives no
  trial. The grid sizes \<open>rows + 1\<close> and \<open>cols + 1\<close> come from the terminal and
  are small; a negative one gives no rows, or empty rows.
\<close>

definition sys_maxint :: int where
  "sys_maxint = 2 ^ 63 - 1"

definition set_up_grid :: "int \<Rightarrow> (nat \<Rightarrow> nat) \<Rightarrow> int \<times> int \<Rightarrow> bool \<Rightarrow> py_error + grid" where
  "set_up_grid seed_percentage rnd maxyx seed_grid =
     (case get_grid_dimensions maxyx of (cols, rows) \<Rightarrow>
        bnd (seed_count seed_percentage rows cols) (\<lambda>seeds.
          let grid = replicate (nat (rows + 1)) (replicate (nat (cols + 1)) dead_c)
          in if seed_grid
             then (if seeds < - sys_maxint - 1 \<or> sys_maxint < seeds then Inl OverflowError
                   else seed_loop rnd 0 rows cols (nat seeds) grid)
             else Inr grid))"

text \<open>The number of trials in the words of the specification: the product, rounded.\<close>

definition spec_trials :: "rat \<Rightarrow> int \<Rightarrow> int \<Rightarrow> int" where
  "spec_trials p rows cols = round (p * of_int rows * of_int cols)"

definition check_for_extinction :: "grid \<Rightarrow> bool" where
  "check_for_extinction grid = (\<not> list_ex (\<lambda>row. list_ex (\<lambda>col. col = alive_c) row) grid)"

subsection \<open>One generation\<close>

text \<open>
  The body of the inner loop of \<open>main\<close>, inside its \<open>try\<close>: the state is the grid
  under construction and the flag \<open>changed\<close>.
\<close>

definition advance_cell :: "grid \<Rightarrow> int \<Rightarrow> int \<Rightarrow> grid \<times> bool \<Rightarrow> py_error + grid \<times> bool" where
  "advance_cell grid x y st =
     (case st of (next_grid, changed) \<Rightarrow>
        bnd (sum_adjecent_fields x y grid) (\<lambda>sum_fields.
        bnd (decide_fate x y sum_fields grid) (\<lambda>new_value.
        bnd (py_getitem grid y) (\<lambda>row.
        bnd (py_getitem row x) (\<lambda>old_value.
        bnd (set_cell next_grid x y new_value) (\<lambda>next_grid1.
          Inr (next_grid1, if new_value \<noteq> old_value then True else changed)))))))"

text \<open>\<open>for _ in row\<close>, with \<open>x\<close> counted up, and \<open>for row in grid\<close>, with \<open>y\<close>.\<close>

fun advance_row :: "grid \<Rightarrow> int \<Rightarrow> int \<Rightarrow> cell list \<Rightarrow> grid \<times> bool \<Rightarrow> py_error + grid \<times> bool" where
  "advance_row grid y x [] st = Inr st"
| "advance_row grid y x (c # row) st =
     bnd (advance_cell grid x y st) (advance_row grid y (x + 1) row)"

fun advance_rows :: "grid \<Rightarrow> int \<Rightarrow> grid \<Rightarrow> grid \<times> bool \<Rightarrow> py_error + grid \<times> bool" where
  "advance_rows grid y [] st = Inr st"
| "advance_rows grid y (row # rest) st =
     bnd (advance_row grid y 0 row st) (advance_rows grid (y + 1) rest)"

subsection \<open>Keyboard input\<close>

text \<open>
  Key codes are what \<open>stdscr.getch()\<close> returns: \<open>ord('q') = 113\<close>,
  \<open>ord('p') = 112\<close>, \<open>ord('-') = 45\<close>, \<open>ord('+') = 43\<close>,
  \<open>curses.KEY_RESIZE = 410\<close>, Enter is 10 and Space is 32.
\<close>

definition ord_q :: int where
  "ord_q = 113"

definition ord_p :: int where
  "ord_p = 112"

definition ord_minus :: int where
  "ord_minus = 45"

definition ord_plus :: int where
  "ord_plus = 43"

definition KEY_RESIZE :: int where
  "KEY_RESIZE = 410"

text \<open>
  \<open>pause\<close> blocks for one key \<open>c\<close>; \<open>q\<close> leaves the program through
  \<open>graceful_exit\<close>. The result tells whether the program goes on.
\<close>

definition pause :: "int \<Rightarrow> bool" where
  "pause c = (c \<noteq> ord_q)"

text \<open>
  \<open>check_input\<close> reads one key \<open>q\<close> without blocking; \<open>c\<close> is the key that the
  blocking read of \<open>pause\<close> returns when \<open>q\<close> is \<open>p\<close>. The global
  \<open>sleep_interval\<close> is passed in and returned.
\<close>

datatype poll = Quit | Returns_True | Returns_None

definition check_input :: "int \<Rightarrow> int \<Rightarrow> int \<Rightarrow> poll \<times> int" where
  "check_input q c sleep_interval =
     (if q = ord_q then (Quit, sleep_interval)
      else if q = ord_p \<and> \<not> pause c then (Quit, sleep_interval)
      else
        let s1 = (if q = ord_minus then sleep_interval + 50 else sleep_interval);
            s2 = (if q = ord_plus then (if s1 - 50 \<ge> 0 then s1 - 50 else 0) else s1)
        in if q = KEY_RESIZE then (Returns_True, s2)
           else if q = 10 \<or> q = 32 then (Returns_True, s2)
           else (Returns_None, s2))"

text \<open>The interval after a sequence of polls, each with its two keys.\<close>

definition poll_all :: "(int \<times> int) list \<Rightarrow> int \<Rightarrow> int" where
  "poll_all ks sleep_interval = fold (\<lambda>(q, c) s. snd (check_input q c s)) ks sleep_interval"

subsection \<open>The main loop\<close>

text \<open>
  What one session does to the terminal, in order: a grid drawn, a message put on a line
  of the message pad (\<open>put_msg\<close>; the text \<open>"Iterations: %d" % iterations\<close> is
  kept as its number), a key polled, a blocking read, a sleep. \<open>put_msg\<close> raises
  nothing: on a \<open>curses.error\<close> it tests \<open>"addstr" in ex\<close>, which compares the
  word with the arguments of the exception, the whole error text, and is false.
\<close>

datatype message = Iterations_msg int | Text_msg string

datatype event =
    Ev_draw "addstr_call list"
  | Ev_put_msg message int
  | Ev_getch
  | Ev_pause
  | Ev_napms int

text \<open>The variables of \<open>main\<close> that live across passes, and the global interval.\<close>

record state =
  grid :: "cell list list"
  grandfather_grid :: "cell list list"
  iterations :: int
  iter_counter_active :: bool
  changed :: bool
  sleep_interval :: int

text \<open>
  What the terminal gives one pass of the loop: the window size read by
  \<open>set_up_grid\<close>, whether \<open>addstr\<close> succeeds at a position, the key polled by
  \<open>check_input\<close>, the key read by its \<open>pause\<close>, and the key read by the
  \<open>pause\<close> that follows the end-of-session message.
\<close>

record env =
  maxyx :: "int \<times> int"
  addstr_ok :: "int \<Rightarrow> int \<Rightarrow> bool"
  key :: int
  pause_key :: int
  ack_key :: int

text \<open>
  How a pass ends: the loop goes on with a new state, \<open>main\<close> returns (with the
  global interval), the program exits, or an exception leaves \<open>main\<close>.
\<close>

datatype outcome = Continue state | Returned int | Exited | Raised py_error

definition msg_extinct :: string where
  "msg_extinct = ''All cells are dead. Try increasing theseed percentage!''"

definition msg_equilibrium :: string where
  "msg_equilibrium = ''True equilibrium achieved! ''"

definition msg_stable :: string where
  "msg_stable = ''Grid is as stable as it will ever be. Press Enter to seed a new grid.''"

text \<open>
  The part of a pass after the new grid is complete: the snapshot, the drawing, the poll,
  the end-of-session test, the comparison with the snapshot and the counter.
\<close>

definition finish_pass :: "env \<Rightarrow> state \<Rightarrow> cell list list \<Rightarrow> bool \<Rightarrow> event list \<times> outcome" where
  "finish_pass e s next_grid changed1 =
     (let gf = (if iterations s mod 2 = 0 then grid s else grandfather_grid s)
      in case draw (addstr_ok e) next_grid of
           Inl err \<Rightarrow> ([], Raised err)
         | Inr calls \<Rightarrow>
             let evs = [Ev_draw calls, Ev_put_msg (Iterations_msg (iterations s)) (y_padding - 4), Ev_getch];
                 evs1 = (if key e = ord_p then evs @ [Ev_pause] else evs)
             in case check_input (key e) (pause_key e) (sleep_interval s) of
                  (Quit, si) \<Rightarrow> (evs1, Exited)
                | (Returns_True, si) \<Rightarrow> (evs1, Returned si)
                | (Returns_None, si) \<Rightarrow>
                    if \<not> changed1 then
                      (evs1 @ [Ev_put_msg (Text_msg (if check_for_extinction next_grid
                                                     then msg_extinct else msg_equilibrium))
                                 (y_padding - 5),
                               Ev_pause],
                       if pause (ack_key e) then Returned si else Exited)
                    else
                      let stable = (next_grid = gf);
                          active = (if stable then False else iter_counter_active s);
                          its = (if active then iterations s + 1 else iterations s)
                      in (evs1 @ (if stable then [Ev_put_msg (Text_msg msg_stable) (y_padding - 5)] else [])
                               @ [Ev_napms si],
                          Continue \<lparr>grid = next_grid, grandfather_grid = gf, iterations = its,
                                    iter_counter_active = active, changed = False,
                                    sleep_interval = si\<rparr>))"

text \<open>
  One pass of \<open>while True\<close>. The new grid is allocated unseeded for the window size
  of the moment; an \<open>IndexError\<close> while it is filled makes \<open>main\<close> return.
\<close>

definition main_pass :: "int \<Rightarrow> env \<Rightarrow> state \<Rightarrow> event list \<times> outcome" where
  "main_pass seed_percentage e s =
     (case set_up_grid seed_percentage rnd0 (maxyx e) False of
        Inl err \<Rightarrow> ([], Raised err)
      | Inr next_grid0 \<Rightarrow>
          (case advance_rows (grid s) 0 (grid s) (next_grid0, changed s) of
             Inl err \<Rightarrow> ([], if err = IndexError then Returned (sleep_interval s) else Raised err)
           | Inr (next_grid, changed1) \<Rightarrow> finish_pass e s next_grid changed1))"

text \<open>
  The loop over the passes for which terminal input is given. The list holds the state
  at the start of every pass begun, and last the state reached when the input runs out
  with the loop still going.
\<close>

fun main_loop :: "int \<Rightarrow> env list \<Rightarrow> state \<Rightarrow> state list \<times> outcome" where
  "main_loop seed_percentage [] s = ([s], Continue s)"
| "main_loop seed_percentage (e # es) s =
     (case snd (main_pass seed_percentage e s) of
        Continue s1 \<Rightarrow>
          (case main_loop seed_percentage es s1 of (ss, out) \<Rightarrow> (s # ss, out))
      | Returned si \<Rightarrow> ([s], Returned si)
      | Exited \<Rightarrow> ([s], Exited)
      | Raised err \<Rightarrow> ([s], Raised err))"

definition init_state :: "cell list list \<Rightarrow> int \<Rightarrow> state" where
  "init_state g si = \<lparr>grid = g, grandfather_grid = [], iterations = 0,
                       iter_counter_active = True, changed = False, sleep_interval = si\<rparr>"

text \<open>
  \<open>main\<close>: a seeded grid for the window size \<open>m0\<close>, drawn on the screen \<open>ok0\<close>
  (outside the \<open>try\<close>), then the loop. The set-up of the message pad and its help
  texts, before the grid, is left out.
\<close>

definition main :: "int \<Rightarrow> (nat \<Rightarrow> nat) \<Rightarrow> int \<times> int \<Rightarrow> (int \<Rightarrow> int \<Rightarrow> bool) \<Rightarrow> int \<Rightarrow> env list
    \<Rightarrow> py_error + state list \<times> outcome" where
  "main seed_percentage rnd m0 ok0 si es =
     bnd (set_up_grid seed_percentage rnd m0 True) (\<lambda>g.
     bnd (draw ok0 g) (\<lambda>calls.
       Inr (main_loop seed_percentage es (init_state g si))))"

subsection \<open>Example inputs\<close>

text \<open>
  A window of 13 lines and 6 columns gives \<open>cols = 3\<close> and \<open>rows = 3\<close>, so the
  grids allocated for it have 4 rows of 4 cells. \<open>main\<close> and its loop read the window
  size on every pass and accept any size. The examples are a horizontal and a vertical
  blinker, a block and the empty grid; a screen that accepts every \<open>addstr\<close>; and the
  terminal input of one pass with polled key \<open>k\<close> (\<open>-1\<close>: no key pressed) and the
  key \<open>a\<close> for the pause that ends a session.
\<close>

definition small_window :: "int \<times> int" where
  "small_window = (13, 6)"

definition blinker_h :: grid where
  "blinker_h = [''----'', ''xxx-'', ''----'', ''----'']"

definition blinker_v :: grid where
  "blinker_v = [''-x--'', ''-x--'', ''-x--'', ''----'']"


definition dead4 :: grid where
  "dead4 = [''----'', ''----'', ''----'', ''----'']"

definition all_ok :: "int \<Rightarrow> int \<Rightarrow> bool" where
  "all_ok y x = True"

definition env_at :: "int \<Rightarrow> int \<Rightarrow> env" where
  "env_at k a = \<lparr>maxyx = small_window, addstr_ok = all_ok, key = k, pause_key = 10, ack_key = a\<rparr>"

text \<open>The states of a session that started on the horizontal blinker, from its second pass on.\<close>

definition osc_state :: "cell list list \<Rightarrow> bool \<Rightarrow> state" where
  "osc_state g a = \<lparr>grid = g, grandfather_grid = blinker_h, iterations = 1,
      iter_counter_active = a, changed = False, sleep_interval = 10\<rparr>"

text \<open>
  A window of 14 lines and 7 columns gives grids of 5 rows of 5 cells: a glider and its
  next three generations, the terminal input of a pass with no key pressed, and the
  state of a running session with grid \<open>g\<close>, snapshot \<open>gf\<close> and counter \<open>n\<close>.
\<close>

definition glider_window :: "int \<times> int" where
  "glider_window = (14, 7)"

definition glider0 :: grid where
  "glider0 = [''-x---'', ''--x--'', ''xxx--'', ''-----'', ''-----'']"

definition glider1 :: grid where
  "glider1 = [''-----'', ''x-x--'', ''-xx--'', ''-x---'', ''-----'']"

definition glider2 :: grid where
  "glider2 = [''-----'', ''--x--'', ''x-x--'', ''-xx--'', ''-----'']"

definition glider3 :: grid where
  "glider3 = [''-----'', ''-x---'', ''--xx-'', ''-xx--'', ''-----'']"

definition env_glider :: env where
  "env_glider = \<lparr>maxyx = glider_window, addstr_ok = all_ok, key = - 1, pause_key = 10, ack_key = 10\<rparr>"

definition run_state :: "cell list list \<Rightarrow> cell list list \<Rightarrow> int \<Rightarrow> state" where
  "run_state g gf n = \<lparr>grid = g, grandfather_grid = gf, iterations = n,
      iter_counter_active = True, changed = False, sleep_interval = 10\<rparr>"

subsection \<open>Predicates and examples for the grids\<close>

text \<open>Every cell of the grid is one of the two characters.\<close>

definition two_valued :: "grid \<Rightarrow> bool" where
  "two_valued g = list_all (list_all (\<lambda>c. c = dead_c \<or> c = alive_c)) g"

text \<open>The position that Python's index \<open>i\<close> denotes in the list \<open>xs\<close>.\<close>

definition py_pos :: "'a list \<Rightarrow> int \<Rightarrow> nat" where
  "py_pos xs i = (if 0 \<le> i then nat i else nat (int (length xs) + i))"

text \<open>
  A random stream that counts up, and the grid that \<open>set_up_grid\<close> seeds from it
  for the 13 by 6 window at 50 percent: four trials, one cell picked twice.
\<close>

definition rnd_id :: "nat \<Rightarrow> nat" where
  "rnd_id i = i"

definition seeded4 :: grid where
  "seeded4 = [''-x--'', ''--x-'', ''x---'', ''----'']"

text \<open>A grid of \<open>r\<close> rows of \<open>c\<close> cells each.\<close>

definition rectangular :: "nat \<Rightarrow> nat \<Rightarrow> grid \<Rightarrow> bool" where
  "rectangular r c g = (length g = r \<and> list_all (\<lambda>row. length row = c) g)"

text \<open>
  The \<open>addstr\<close> calls of a successful \<open>draw\<close>: cell \<open>j\<close> of row \<open>i\<close>
  goes to line \<open>y + i\<close> and column \<open>x + j\<close>, in colour pair 2 when alive and 1
  otherwise.
\<close>

definition colour :: "cell \<Rightarrow> nat" where
  "colour v = (if v = alive_c then 2 else 1)"

definition row_calls :: "int \<Rightarrow> int \<Rightarrow> cell list \<Rightarrow> addstr_call list" where
  "row_calls y x row = map (\<lambda>j. (y, x + int j, row ! j, colour (row ! j))) [0..<length row]"

definition grid_calls :: "int \<Rightarrow> grid \<Rightarrow> addstr_call list" where
  "grid_calls y g = concat (map (\<lambda>i. row_calls (y + int i) 1 (g ! i)) [0..<length g])"

text \<open>
  A vertical blinker on column 2, the last column that seeding can reach in the 13 by 6
  window, and its next generation, which has a live cell in column 3.
\<close>

definition blinker_edge :: grid where
  "blinker_edge = [''--x-'', ''--x-'', ''--x-'', ''----'']"

definition blinker_over :: grid where
  "blinker_over = [''----'', ''-xxx'', ''----'', ''----'']"

text \<open>
  The cell \<open>(x, y)\<close> that seeding trial \<open>j\<close> (from 0) picks: the trial draws
  first \<open>y\<close>, then \<open>x\<close>, so it reads the random stream at \<open>2 * j\<close> and
  \<open>2 * j + 1\<close>.
\<close>

definition trial_cell :: "(nat \<Rightarrow> nat) \<Rightarrow> int \<Rightarrow> int \<Rightarrow> nat \<Rightarrow> int \<times> int" where
  "trial_cell rnd rows cols j =
     (int (rnd (2 * j + 1) mod nat cols), int (rnd (2 * j) mod nat rows))"

section \<open>Properties\<close>

subsection \<open>Sequencing\<close>

lemma bnd_Inr [simp]: "bnd (Inr v) f = f v"
  by (simp add: bnd_def)

lemma bnd_Inl [simp]: "bnd (Inl e) f = Inl e"
  by (simp add: bnd_def)

lemma bnd_eq_Inr: "bnd m f = Inr r \<longleftrightarrow> (\<exists>v. m = Inr v \<and> f v = Inr r)"
  by (cases m) simp_all

subsection \<open>The rule of life\<close>

lemma decide_fate_rule:
  "decide_fate x y n g =
     (case get_coordinate_value x y g of Inl e \<Rightarrow> Inl e | Inr a \<Rightarrow> Inr (classic_rule a n))"
  by (cases "get_coordinate_value x y g")
     (auto simp: decide_fate_def classic_rule_def Let_def)

text \<open>
  C1. For every grid, every coordinate and every neighbour count \<open>n\<close> that
  \<open>sum_adjecent_fields\<close> returns there, \<open>decide_fate\<close> is the classic rule applied
  to the liveness of the cell and \<open>n\<close>: an alive cell stays alive exactly with 2 or 3
  live neighbours, a dead cell becomes alive exactly with 3, everything else is dead
  (and \<open>decide_fate\<close> raises exactly when the lookup of the cell itself raises).
\<close>

theorem decide_fate_classic_rule:
  assumes "sum_adjecent_fields x y g = Inr n"
  shows "decide_fate x y n g =
     (case get_coordinate_value x y g of
        Inl e \<Rightarrow> Inl e
      | Inr a \<Rightarrow> Inr (classic_rule a n))"
  by (rule decide_fate_rule)

theorem decide_fate_classic_rule_witness:
  "sum_adjecent_fields 1 1 [''---'', ''xxx'', ''---''] = Inr 2
   \<and> get_coordinate_value 1 1 [''---'', ''xxx'', ''---''] = Inr True
   \<and> decide_fate 1 1 2 [''---'', ''xxx'', ''---''] = Inr alive_c
   \<and> classic_rule True 2 = alive_c"
proof -
  have n: "sum_adjecent_fields 1 1 [''---'', ''xxx'', ''---''] = Inr 2"
    by code_simp
  have a: "get_coordinate_value 1 1 [''---'', ''xxx'', ''---''] = Inr True"
    by code_simp
  have r: "classic_rule True 2 = alive_c"
    by (simp add: classic_rule_def)
  from decide_fate_classic_rule [OF n] a r
  have "decide_fate 1 1 2 [''---'', ''xxx'', ''---''] = Inr alive_c"
    by simp
  with n a r show ?thesis by simp
qed

subsection \<open>Border wrapping\<close>

text \<open>
  C4. On a grid of \<open>rows\<close> rows and \<open>cols\<close> columns (both positive: the ranges
  \<open>[0, cols)\<close> and \<open>[0, rows)\<close> are empty otherwise), \<open>wrap_border\<close> takes every
  \<open>x\<close> from \<open>-1\<close> to \<open>cols\<close> and \<open>y\<close> from \<open>-1\<close> to \<open>rows\<close> into
  \<open>[0, cols) \<times> [0, rows)\<close>; on a 10 by 10 grid \<open>(-1, 0)\<close> goes to \<open>(9, 0)\<close>
  and \<open>(10, 0)\<close> to \<open>(0, 0)\<close>.
\<close>

theorem wrap_border_in_range:
  assumes "length g = rows" and "0 < rows" and "length (g ! 0) = cols" and "0 < cols"
    and "- 1 \<le> x" and "x \<le> int cols" and "- 1 \<le> y" and "y \<le> int rows"
  shows "(\<exists>x1 y1. wrap_border x y g = Inr (x1, y1)
            \<and> 0 \<le> x1 \<and> x1 < int cols \<and> 0 \<le> y1 \<and> y1 < int rows)
     \<and> (rows = 10 \<and> cols = 10 \<longrightarrow>
            wrap_border (- 1) 0 g = Inr (9, 0) \<and> wrap_border 10 0 g = Inr (0, 0))"
  using assms by (auto simp: wrap_border_def py_getitem_def Let_def)

theorem wrap_border_in_range_witness:
  "wrap_border (- 1) 0 (replicate 10 (replicate 10 dead_c)) = Inr (9, 0)
   \<and> wrap_border 10 0 (replicate 10 (replicate 10 dead_c)) = Inr (0, 0)
   \<and> wrap_border 10 (- 1) (replicate 10 (replicate 10 dead_c)) = Inr (0, 9)"
proof -
  let ?g = "replicate 10 (replicate 10 dead_c)"
  have "(\<exists>x1 y1. wrap_border 10 (- 1) ?g = Inr (x1, y1)
            \<and> 0 \<le> x1 \<and> x1 < int 10 \<and> 0 \<le> y1 \<and> y1 < int 10)
     \<and> ((10::nat) = 10 \<and> (10::nat) = 10 \<longrightarrow>
            wrap_border (- 1) 0 ?g = Inr (9, 0) \<and> wrap_border 10 0 ?g = Inr (0, 0))"
    by (rule wrap_border_in_range [of ?g 10 10 10 "- 1"]) simp_all
  moreover have "wrap_border 10 (- 1) ?g = Inr (0, 9)"
    by (simp add: wrap_border_def py_getitem_def)
  ultimately show ?thesis by simp
qed

subsection \<open>The step interval\<close>

lemma check_input_nonneg: "0 \<le> s \<Longrightarrow> 0 \<le> snd (check_input q c s)"
  by (simp add: check_input_def Let_def)

lemma poll_all_nonneg: "0 \<le> s \<Longrightarrow> 0 \<le> poll_all ks s"
  unfolding poll_all_def
proof (induction ks arbitrary: s)
  case Nil
  then show ?case by simp
next
  case (Cons k ks)
  obtain q c where k: "k = (q, c)" by (cases k)
  have "0 \<le> snd (check_input q c s)"
    using Cons.prems by (rule check_input_nonneg)
  then show ?case
    using Cons.IH k by simp
qed

text \<open>
  C9. The step interval stays non-negative under every key: \<open>+\<close> takes 50 off it but
  not below 0, \<open>-\<close> adds 50, no other key changes it, and after any sequence of polls
  that starts from a non-negative interval (the program starts at 10) it is at least 0.
\<close>

theorem sleep_interval_nonneg:
  assumes "0 \<le> s"
  shows "0 \<le> snd (check_input q c s)
     \<and> snd (check_input ord_plus c s) = max 0 (s - 50)
     \<and> snd (check_input ord_minus c s) = s + 50
     \<and> (q \<noteq> ord_plus \<and> q \<noteq> ord_minus \<longrightarrow> snd (check_input q c s) = s)
     \<and> 0 \<le> poll_all ks s"
  using assms
  by (simp add: check_input_nonneg poll_all_nonneg)
     (simp add: check_input_def Let_def ord_plus_def ord_minus_def ord_q_def ord_p_def)

theorem sleep_interval_nonneg_witness:
  "snd (check_input ord_plus 0 10) = 0
   \<and> snd (check_input ord_minus 0 10) = 60
   \<and> poll_all [(ord_plus, 0), (ord_minus, 0), (ord_minus, 0), (ord_plus, 0), (ord_plus, 0), (ord_plus, 0)] 10 = 0"
proof -
  have "poll_all [(ord_plus, 0), (ord_minus, 0), (ord_minus, 0), (ord_plus, 0), (ord_plus, 0), (ord_plus, 0)] 10 = 0"
    by (simp add: poll_all_def check_input_def Let_def ord_plus_def ord_minus_def ord_q_def ord_p_def KEY_RESIZE_def)
  then show ?thesis
    using sleep_interval_nonneg [of 10 ord_plus 0 "[]"] by simp
qed

subsection \<open>One pass of the loop\<close>

lemma finish_pass_Continue:
  assumes "finish_pass e s ng ch = (evs, Continue s1)"
  shows "ch \<and> grid s1 = ng
     \<and> grandfather_grid s1 = (if iterations s mod 2 = 0 then grid s else grandfather_grid s)
     \<and> iter_counter_active s1 = (iter_counter_active s \<and> ng \<noteq> grandfather_grid s1)
     \<and> iterations s1 = (if iter_counter_active s1 then iterations s + 1 else iterations s)
     \<and> sleep_interval s1 = snd (check_input (key e) (pause_key e) (sleep_interval s))
     \<and> \<not> changed s1"
  using assms
  by (auto simp: finish_pass_def Let_def split: sum.splits prod.splits poll.splits if_splits)

lemma main_pass_Continue:
  assumes "main_pass sp e s = (evs, Continue s1)"
  shows "\<exists>ng0. set_up_grid sp rnd0 (maxyx e) False = Inr ng0
       \<and> advance_rows (grid s) 0 (grid s) (ng0, changed s) = Inr (grid s1, True)
       \<and> finish_pass e s (grid s1) True = (evs, Continue s1)"
proof -
  from assms obtain ng0 where a: "set_up_grid sp rnd0 (maxyx e) False = Inr ng0"
    by (auto simp: main_pass_def split: sum.splits)
  from assms a obtain ng ch
    where b: "advance_rows (grid s) 0 (grid s) (ng0, changed s) = Inr (ng, ch)"
      and c: "finish_pass e s ng ch = (evs, Continue s1)"
    by (auto simp: main_pass_def split: sum.splits if_splits)
  from finish_pass_Continue [OF c] have "ch" "grid s1 = ng" by simp_all
  with a b c show ?thesis by auto
qed

lemma main_pass_frozen:
  assumes "main_pass sp e s = (evs, Continue s1)" and "\<not> iter_counter_active s"
  shows "\<not> iter_counter_active s1 \<and> iterations s1 = iterations s"
proof -
  from main_pass_Continue [OF assms(1)]
  have "finish_pass e s (grid s1) True = (evs, Continue s1)" by blast
  from finish_pass_Continue [OF this] assms(2) show ?thesis by simp
qed

lemma main_loop_frozen:
  assumes "main_loop sp es s = (ss, out)" and "\<not> iter_counter_active s"
  shows "list_all (\<lambda>t. \<not> iter_counter_active t \<and> iterations t = iterations s) ss"
  using assms
proof (induction es arbitrary: s ss out)
  case Nil
  then show ?case by auto
next
  case (Cons e es)
  obtain evs o1 where p: "main_pass sp e s = (evs, o1)" by (cases "main_pass sp e s")
  show ?case
  proof (cases o1)
    case (Continue s1)
    obtain ss1 out1 where l: "main_loop sp es s1 = (ss1, out1)"
      by (cases "main_loop sp es s1")
    from p Continue main_pass_frozen Cons.prems(2)
    have f: "\<not> iter_counter_active s1" "iterations s1 = iterations s" by blast+
    from Cons.IH [OF l f(1)] f(2)
    have "list_all (\<lambda>t. \<not> iter_counter_active t \<and> iterations t = iterations s) ss1" by simp
    moreover from Cons.prems(1) p Continue l have "ss = s # ss1" by simp
    ultimately show ?thesis using Cons.prems(2) by simp
  next
    case (Returned si)
    with Cons.prems p show ?thesis by auto
  next
    case Exited
    with Cons.prems p show ?thesis by auto
  next
    case (Raised err)
    with Cons.prems p show ?thesis by auto
  qed
qed

lemma finish_pass_stable:
  assumes "draw (addstr_ok e) ng = Inr calls"
    and "fst (check_input (key e) (pause_key e) (sleep_interval s)) = Returns_None"
    and "ng = (if iterations s mod 2 = 0 then grid s else grandfather_grid s)"
  shows "\<exists>evs s1. finish_pass e s ng True = (evs, Continue s1)
       \<and> \<not> iter_counter_active s1 \<and> iterations s1 = iterations s
       \<and> grid s1 = ng
       \<and> Ev_put_msg (Text_msg msg_stable) (y_padding - 5) \<in> set evs"
  using assms
  by (cases "check_input (key e) (pause_key e) (sleep_interval s)")
     (auto simp: finish_pass_def Let_def)


lemma finish_pass_reseed:
  assumes "draw (addstr_ok e) ng = Inr calls"
    and "check_input (key e) (pause_key e) (sleep_interval s) = (Returns_True, si)"
  shows "finish_pass e s ng ch =
      ((if key e = ord_p
        then [Ev_draw calls, Ev_put_msg (Iterations_msg (iterations s)) (y_padding - 4), Ev_getch, Ev_pause]
        else [Ev_draw calls, Ev_put_msg (Iterations_msg (iterations s)) (y_padding - 4), Ev_getch]),
       Returned si)"
  using assms
  by (auto simp: finish_pass_def Let_def)

subsection \<open>A pass that changes nothing\<close>




subsection \<open>Oscillation\<close>

text \<open>
  C8. When the comparison of the new grid with the snapshot is reached and they are
  equal, the pass puts the message and the loop goes on, with the counter where it was
  and the flag \<open>iter_counter_active\<close> off; and from any state where the flag is off,
  every later state of the loop has it off and the same counter.
\<close>

theorem oscillation_freezes_counter:
  "(set_up_grid sp rnd0 (maxyx e) False = Inr ng0
      \<and> advance_rows (grid s) 0 (grid s) (ng0, changed s) = Inr (ng, True)
      \<and> draw (addstr_ok e) ng = Inr calls
      \<and> fst (check_input (key e) (pause_key e) (sleep_interval s)) = Returns_None
      \<and> ng = (if iterations s mod 2 = 0 then grid s else grandfather_grid s)
    \<longrightarrow> (\<exists>evs s1. main_pass sp e s = (evs, Continue s1)
           \<and> grid s1 = ng
           \<and> \<not> iter_counter_active s1 \<and> iterations s1 = iterations s
           \<and> Ev_put_msg (Text_msg msg_stable) (y_padding - 5) \<in> set evs))
   \<and> (\<not> iter_counter_active t \<and> main_loop sp es t = (ss, out)
    \<longrightarrow> list_all (\<lambda>u. \<not> iter_counter_active u \<and> iterations u = iterations t) ss)"
proof (intro conjI impI)
  assume h: "set_up_grid sp rnd0 (maxyx e) False = Inr ng0
      \<and> advance_rows (grid s) 0 (grid s) (ng0, changed s) = Inr (ng, True)
      \<and> draw (addstr_ok e) ng = Inr calls
      \<and> fst (check_input (key e) (pause_key e) (sleep_interval s)) = Returns_None
      \<and> ng = (if iterations s mod 2 = 0 then grid s else grandfather_grid s)"
  then have "main_pass sp e s = finish_pass e s ng True"
    by (simp add: main_pass_def)
  moreover from h have "\<exists>evs s1. finish_pass e s ng True = (evs, Continue s1)
       \<and> \<not> iter_counter_active s1 \<and> iterations s1 = iterations s
       \<and> grid s1 = ng
       \<and> Ev_put_msg (Text_msg msg_stable) (y_padding - 5) \<in> set evs"
    using finish_pass_stable [of e ng calls s] by blast
  ultimately show "\<exists>evs s1. main_pass sp e s = (evs, Continue s1)
           \<and> grid s1 = ng
           \<and> \<not> iter_counter_active s1 \<and> iterations s1 = iterations s
           \<and> Ev_put_msg (Text_msg msg_stable) (y_padding - 5) \<in> set evs"
    by auto
next
  assume "\<not> iter_counter_active t \<and> main_loop sp es t = (ss, out)"
  then show "list_all (\<lambda>u. \<not> iter_counter_active u \<and> iterations u = iterations t) ss"
    using main_loop_frozen by blast
qed

theorem oscillation_freezes_counter_witness:
  "main_loop 10 [env_at (- 1) 10, env_at (- 1) 10, env_at (- 1) 10, env_at (- 1) 10]
       (init_state blinker_h 10) =
     ([init_state blinker_h 10, osc_state blinker_v True, osc_state blinker_h False,
       osc_state blinker_v False, osc_state blinker_h False],
      Continue (osc_state blinker_h False))
   \<and> (\<exists>evs. main_pass 10 (env_at (- 1) 10) (osc_state blinker_v True)
               = (evs, Continue (osc_state blinker_h False)))
   \<and> list_all (\<lambda>u. \<not> iter_counter_active u \<and> iterations u = 1)
        [osc_state blinker_h False, osc_state blinker_v False, osc_state blinker_h False]"
proof -
  let ?e = "env_at (- 1) 10"
  let ?s = "osc_state blinker_v True"
  have run: "main_loop 10 [?e, ?e, ?e, ?e] (init_state blinker_h 10) =
     ([init_state blinker_h 10, osc_state blinker_v True, osc_state blinker_h False,
       osc_state blinker_v False, osc_state blinker_h False],
      Continue (osc_state blinker_h False))"
    by code_simp
  have tail: "main_loop 10 [?e, ?e] (osc_state blinker_h False) =
     ([osc_state blinker_h False, osc_state blinker_v False, osc_state blinker_h False],
      Continue (osc_state blinker_h False))"
    by code_simp
  have h: "set_up_grid 10 rnd0 (maxyx ?e) False = Inr dead4
      \<and> advance_rows (grid ?s) 0 (grid ?s) (dead4, changed ?s) = Inr (blinker_h, True)
      \<and> draw (addstr_ok ?e) blinker_h = Inr (projr (draw all_ok blinker_h))
      \<and> fst (check_input (key ?e) (pause_key ?e) (sleep_interval ?s)) = Returns_None
      \<and> blinker_h = (if iterations ?s mod 2 = 0 then grid ?s else grandfather_grid ?s)"
    by code_simp
  have f: "\<not> iter_counter_active (osc_state blinker_h False)"
    "iterations (osc_state blinker_h False) = 1"
    by (simp_all add: osc_state_def)
  note inst = oscillation_freezes_counter [of 10 ?e dead4 ?s blinker_h "projr (draw all_ok blinker_h)"
      "osc_state blinker_h False" "[?e, ?e]"
      "[osc_state blinker_h False, osc_state blinker_v False, osc_state blinker_h False]"
      "Continue (osc_state blinker_h False)"]
  from inst h obtain evs s1 where p: "main_pass 10 ?e ?s = (evs, Continue s1)"
    and q: "grid s1 = blinker_h" "\<not> iter_counter_active s1" "iterations s1 = iterations ?s"
    by blast
  have "snd (main_pass 10 ?e ?s) = Continue (osc_state blinker_h False)"
    by code_simp
  with p have "\<exists>evs. main_pass 10 ?e ?s = (evs, Continue (osc_state blinker_h False))"
    by simp
  moreover from inst f tail
  have "list_all (\<lambda>u. \<not> iter_counter_active u \<and> iterations u = 1)
        [osc_state blinker_h False, osc_state blinker_v False, osc_state blinker_h False]"
    by simp
  ultimately show ?thesis using run by simp
qed

subsection \<open>The snapshot for the oscillation test\<close>

lemma main_loop_nonempty:
  assumes "main_loop sp es s = (ss, out)"
  shows "ss \<noteq> [] \<and> ss ! 0 = s"
  using assms
  by (cases es) (auto split: outcome.splits prod.splits)

lemma main_loop_step:
  assumes "main_loop sp es s = (ss, out)" and "Suc k < length ss"
  shows "\<exists>e evs. main_pass sp e (ss ! k) = (evs, Continue (ss ! Suc k))"
  using assms
proof (induction es arbitrary: s ss k out)
  case Nil
  then show ?case by auto
next
  case (Cons e es)
  obtain evs o1 where p: "main_pass sp e s = (evs, o1)" by (cases "main_pass sp e s")
  show ?case
  proof (cases o1)
    case (Continue s1)
    obtain ss1 out1 where l: "main_loop sp es s1 = (ss1, out1)"
      by (cases "main_loop sp es s1")
    from Cons.prems(1) p Continue l have ss: "ss = s # ss1" by simp
    from main_loop_nonempty [OF l] have h: "ss1 \<noteq> []" "ss1 ! 0 = s1" by simp_all
    show ?thesis
    proof (cases k)
      case 0
      with ss h p Continue show ?thesis by auto
    next
      case (Suc j)
      with Cons.prems(2) ss have "Suc j < length ss1" by simp
      from Cons.IH [OF l this] Suc ss show ?thesis by simp
    qed
  next
    case (Returned si)
    with Cons.prems p show ?thesis by auto
  next
    case Exited
    with Cons.prems p show ?thesis by auto
  next
    case (Raised err)
    with Cons.prems p show ?thesis by auto
  qed
qed

lemma main_pass_snapshot:
  assumes "main_pass sp e s = (evs, Continue s1)"
  shows "grandfather_grid s1 = (if iterations s mod 2 = 0 then grid s else grandfather_grid s)
     \<and> (iter_counter_active s1 \<longrightarrow> iter_counter_active s \<and> iterations s1 = iterations s + 1)"
proof -
  from main_pass_Continue [OF assms]
  have "finish_pass e s (grid s1) True = (evs, Continue s1)" by blast
  from finish_pass_Continue [OF this] show ?thesis by simp
qed

lemma main_loop_counter:
  assumes "main_loop sp es s = (ss, out)" and "k < length ss" and "iter_counter_active (ss ! k)"
  shows "iterations (ss ! k) = iterations s + int k \<and> (\<forall>j\<le>k. iter_counter_active (ss ! j))"
  using assms(2,3)
proof (induction k)
  case 0
  with main_loop_nonempty [OF assms(1)] show ?case by simp
next
  case (Suc k)
  from main_loop_step [OF assms(1) Suc.prems(1)] obtain e evs
    where p: "main_pass sp e (ss ! k) = (evs, Continue (ss ! Suc k))" by blast
  from main_pass_snapshot [OF p] Suc.prems(2)
  have a: "iter_counter_active (ss ! k)" "iterations (ss ! Suc k) = iterations (ss ! k) + 1"
    by simp_all
  from Suc.IH a(1) Suc.prems(1)
  have ih: "iterations (ss ! k) = iterations s + int k" "\<forall>j\<le>k. iter_counter_active (ss ! j)"
    by simp_all
  from ih a Suc.prems(2) show ?case
    by (auto simp: le_Suc_eq)
qed

text \<open>
  C2, amended. The snapshot is empty only before the first pass. A pass replaces it by
  its pre-advance grid exactly when the counter is even, before the comparison. While the
  counter is not frozen it equals the pass number \<open>k\<close> (from 0), so the snapshot
  compared in pass \<open>k\<close> is the pre-advance grid of pass \<open>k\<close> itself, one
  generation older than the new grid, when \<open>k\<close> is even, and the pre-advance grid of
  pass \<open>k - 1\<close>, two generations older than the new grid, when \<open>k\<close> is odd.
  Here \<open>ss ! k\<close> is the state at the start of pass \<open>k\<close> and \<open>ss ! Suc k\<close>
  the state after it, which holds the new grid and the snapshot it was compared with.
\<close>

theorem snapshot_age:
  assumes "main_loop sp es (init_state g si) = (ss, out)" and "Suc k < length ss"
  shows "grandfather_grid (ss ! 0) = []
     \<and> grandfather_grid (ss ! Suc k) =
         (if even (iterations (ss ! k)) then grid (ss ! k) else grandfather_grid (ss ! k))
     \<and> (iter_counter_active (ss ! k) \<longrightarrow>
          iterations (ss ! k) = int k
          \<and> (even k \<longrightarrow> grandfather_grid (ss ! Suc k) = grid (ss ! k))
          \<and> (odd k \<longrightarrow> grandfather_grid (ss ! Suc k) = grid (ss ! (k - 1))))"
proof -
  from main_loop_nonempty [OF assms(1)] have z: "ss ! 0 = init_state g si" by simp
  from main_loop_step [OF assms] obtain e evs
    where p: "main_pass sp e (ss ! k) = (evs, Continue (ss ! Suc k))" by blast
  from main_pass_snapshot [OF p]
  have gf: "grandfather_grid (ss ! Suc k) =
         (if even (iterations (ss ! k)) then grid (ss ! k) else grandfather_grid (ss ! k))"
    by (simp add: even_iff_mod_2_eq_zero)
  have act: "iterations (ss ! k) = int k
          \<and> (even k \<longrightarrow> grandfather_grid (ss ! Suc k) = grid (ss ! k))
          \<and> (odd k \<longrightarrow> grandfather_grid (ss ! Suc k) = grid (ss ! (k - 1)))"
    if a: "iter_counter_active (ss ! k)"
  proof -
    from assms(2) have kl: "k < length ss" by simp
    from main_loop_counter [OF assms(1) kl a]
    have c: "iterations (ss ! k) = int k" and all: "\<forall>j\<le>k. iter_counter_active (ss ! j)"
      by (simp_all add: init_state_def)
    have "grandfather_grid (ss ! Suc k) = grid (ss ! (k - 1))" if o: "odd k"
    proof -
      from o obtain j where j: "k = Suc j" by (cases k) auto
      with kl have jl: "Suc j < length ss" "j < length ss" by simp_all
      from all j have aj: "iter_counter_active (ss ! j)" by simp
      from main_loop_counter [OF assms(1) jl(2) aj]
      have cj: "iterations (ss ! j) = int j" by (simp add: init_state_def)
      from main_loop_step [OF assms(1) jl(1)] obtain e1 evs1
        where p1: "main_pass sp e1 (ss ! j) = (evs1, Continue (ss ! Suc j))" by blast
      from o j have "int j mod 2 = 0" by presburger
      with main_pass_snapshot [OF p1] cj j
      have "grandfather_grid (ss ! k) = grid (ss ! j)"
        by simp
      with gf c o j show ?thesis by simp
    qed
    with gf c show ?thesis by auto
  qed
  from z have "grandfather_grid (ss ! 0) = []" by (simp add: init_state_def)
  with gf act show ?thesis by blast
qed

text \<open>
  C2, as stated, fails: in a session on a glider the snapshot compared in the first pass
  is the initial grid, not absent and one generation older than the new grid, and the
  snapshot compared in the third pass is the pre-advance grid of that pass, which differs
  from the grids one and two generations before it.
\<close>

theorem snapshot_age_counterexample:
  "main_loop 10 [env_glider, env_glider, env_glider] (init_state glider0 10) =
     ([init_state glider0 10, run_state glider1 glider0 1, run_state glider2 glider0 2,
       run_state glider3 glider2 3],
      Continue (run_state glider3 glider2 3))
   \<and> glider0 \<noteq> [] \<and> glider2 \<noteq> [] \<and> glider2 \<noteq> glider1 \<and> glider2 \<noteq> glider0"
  by code_simp

theorem snapshot_age_witness:
  "grandfather_grid (init_state glider0 10) = []
   \<and> grandfather_grid (run_state glider2 glider0 2) = grid (init_state glider0 10)
   \<and> grandfather_grid (run_state glider3 glider2 3) = grid (run_state glider2 glider0 2)"
proof -
  let ?ss = "[init_state glider0 10, run_state glider1 glider0 1, run_state glider2 glider0 2,
       run_state glider3 glider2 3]"
  have run: "main_loop 10 [env_glider, env_glider, env_glider] (init_state glider0 10) =
     (?ss, Continue (run_state glider3 glider2 3))"
    by code_simp
  have a: "iter_counter_active (?ss ! 1)" "iter_counter_active (?ss ! 2)"
    by (simp_all add: run_state_def)
  have "odd (1::nat)" "even (2::nat)" "Suc 1 < length ?ss" "Suc 2 < length ?ss" by simp_all
  with snapshot_age [OF run, of 1] snapshot_age [OF run, of 2] a
  have "grandfather_grid (?ss ! 0) = []"
    "grandfather_grid (?ss ! Suc 1) = grid (?ss ! (1 - 1))"
    "grandfather_grid (?ss ! Suc 2) = grid (?ss ! 2)"
    by blast+
  then show ?thesis by simp
qed

subsection \<open>Two-valued cells\<close>

lemma py_getitem_Inr:
  "py_getitem xs i = Inr v \<Longrightarrow> py_pos xs i < length xs \<and> v = xs ! py_pos xs i"
  by (auto simp: py_getitem_def py_pos_def split: if_splits)

lemma py_setitem_Inr:
  "py_setitem xs i v = Inr ys \<Longrightarrow> py_pos xs i < length xs \<and> ys = xs[py_pos xs i := v]"
  by (auto simp: py_setitem_def py_pos_def split: if_splits)

lemma set_cell_Inr:
  assumes "set_cell g x y v = Inr g1"
  shows "\<exists>i j. i < length g \<and> g1 = g[i := (g ! i)[j := v]]"
proof -
  from assms obtain row row1 where a: "py_getitem g y = Inr row"
    and b: "py_setitem row x v = Inr row1" and c: "py_setitem g y row1 = Inr g1"
    by (auto simp: set_cell_def bnd_eq_Inr)
  from py_getitem_Inr [OF a] py_setitem_Inr [OF c] py_setitem_Inr [OF b]
  have "py_pos g y < length g"
    and "g1 = g[py_pos g y := (g ! py_pos g y)[py_pos (g ! py_pos g y) x := v]]"
    by simp_all
  then show ?thesis by blast
qed

lemma two_valued_update:
  assumes "two_valued g" and "v = dead_c \<or> v = alive_c"
  shows "two_valued (g[i := (g ! i)[j := v]])"
proof -
  have "c = dead_c \<or> c = alive_c" if "row \<in> set (g[i := (g ! i)[j := v]])" "c \<in> set row" for row c
  proof (cases "row \<in> set g")
    case True
    with assms(1) that(2) show ?thesis by (auto simp: two_valued_def list_all_iff)
  next
    case False
    with that(1) have r: "row = (g ! i)[j := v]" "i < length g"
      using set_update_subset_insert [of g i "(g ! i)[j := v]"]
      by (auto, metis list_update_beyond not_le_imp_less)
    from that(2) r(1) have "c = v \<or> c \<in> set (g ! i)"
      using set_update_subset_insert [of "g ! i" j v] by auto
    with assms r(2) show ?thesis by (auto simp: two_valued_def list_all_iff)
  qed
  then show ?thesis by (auto simp: two_valued_def list_all_iff)
qed

lemma set_cell_two_valued:
  assumes "set_cell g x y v = Inr g1" and "two_valued g" and "v = dead_c \<or> v = alive_c"
  shows "two_valued g1"
  using set_cell_Inr [OF assms(1)] two_valued_update [OF assms(2,3)] by auto

lemma seed_loop_two_valued:
  assumes "seed_loop rnd i rows cols k g = Inr g1" and "two_valued g"
  shows "two_valued g1"
  using assms
proof (induction k arbitrary: i g)
  case 0
  then show ?case by simp
next
  case (Suc k)
  from Suc.prems(1) obtain y x g2 where s: "set_cell g x y alive_c = Inr g2"
    and l: "seed_loop rnd (i + 2) rows cols k g2 = Inr g1"
    by (auto simp: bnd_eq_Inr)
  from set_cell_two_valued [OF s Suc.prems(2)] have "two_valued g2" by simp
  from Suc.IH [OF l this] show ?case .
qed

lemma two_valued_replicate: "two_valued (replicate r (replicate c dead_c))"
  by (simp add: two_valued_def list_all_iff)

lemma set_up_grid_two_valued:
  assumes "set_up_grid sp rnd m b = Inr g"
  shows "two_valued g"
proof -
  obtain cols rows where d: "get_grid_dimensions m = (cols, rows)"
    by (cases "get_grid_dimensions m")
  show ?thesis
  proof (cases b)
    case True
    with assms d obtain seeds where
      "seed_loop rnd 0 rows cols (nat seeds)
         (replicate (nat (rows + 1)) (replicate (nat (cols + 1)) dead_c)) = Inr g"
      by (auto simp: set_up_grid_def bnd_eq_Inr Let_def split: if_splits)
    with seed_loop_two_valued two_valued_replicate show ?thesis by blast
  next
    case False
    with assms d have "g = replicate (nat (rows + 1)) (replicate (nat (cols + 1)) dead_c)"
      by (auto simp: set_up_grid_def bnd_eq_Inr Let_def)
    with two_valued_replicate show ?thesis by simp
  qed
qed

lemma decide_fate_two_valued:
  assumes "decide_fate x y n g = Inr v"
  shows "v = alive_c \<or> v = dead_c"
  using assms
  by (auto simp: decide_fate_def bnd_eq_Inr Let_def split: if_splits)

lemma advance_cell_two_valued:
  assumes "advance_cell g x y (ng, ch) = Inr (ng1, ch1)" and "two_valued ng"
  shows "two_valued ng1"
proof -
  from assms(1) obtain n v where d: "decide_fate x y n g = Inr v"
    and s: "set_cell ng x y v = Inr ng1"
    by (auto simp: advance_cell_def bnd_eq_Inr)
  from decide_fate_two_valued [OF d] have "v = dead_c \<or> v = alive_c" by auto
  from set_cell_two_valued [OF s assms(2) this] show ?thesis .
qed

lemma advance_row_two_valued:
  assumes "advance_row g y x row (ng, ch) = Inr (ng1, ch1)" and "two_valued ng"
  shows "two_valued ng1"
  using assms
proof (induction row arbitrary: x ng ch)
  case Nil
  then show ?case by simp
next
  case (Cons c row)
  from Cons.prems(1) obtain ng2 ch2 where a: "advance_cell g x y (ng, ch) = Inr (ng2, ch2)"
    and r: "advance_row g y (x + 1) row (ng2, ch2) = Inr (ng1, ch1)"
    by (auto simp: bnd_eq_Inr)
  from advance_cell_two_valued [OF a Cons.prems(2)] have "two_valued ng2" .
  from Cons.IH [OF r this] show ?case .
qed

lemma advance_rows_two_valued:
  assumes "advance_rows g y rs (ng, ch) = Inr (ng1, ch1)" and "two_valued ng"
  shows "two_valued ng1"
  using assms
proof (induction rs arbitrary: y ng ch)
  case Nil
  then show ?case by simp
next
  case (Cons row rs)
  from Cons.prems(1) obtain ng2 ch2 where a: "advance_row g y 0 row (ng, ch) = Inr (ng2, ch2)"
    and r: "advance_rows g (y + 1) rs (ng2, ch2) = Inr (ng1, ch1)"
    by (auto simp: bnd_eq_Inr)
  from advance_row_two_valued [OF a Cons.prems(2)] have "two_valued ng2" .
  from Cons.IH [OF r this] show ?case .
qed

lemma main_pass_two_valued:
  assumes "main_pass sp e s = (evs, Continue s1)"
    and "two_valued (grid s)" and "two_valued (grandfather_grid s)"
  shows "two_valued (grid s1) \<and> two_valued (grandfather_grid s1)"
proof -
  from main_pass_Continue [OF assms(1)] obtain ng0
    where a: "set_up_grid sp rnd0 (maxyx e) False = Inr ng0"
      and b: "advance_rows (grid s) 0 (grid s) (ng0, changed s) = Inr (grid s1, True)"
      and c: "finish_pass e s (grid s1) True = (evs, Continue s1)"
    by blast
  from advance_rows_two_valued [OF b set_up_grid_two_valued [OF a]]
  have "two_valued (grid s1)" .
  moreover from finish_pass_Continue [OF c] assms(2,3)
  have "two_valued (grandfather_grid s1)" by auto
  ultimately show ?thesis by simp
qed

lemma main_loop_two_valued:
  assumes "main_loop sp es s = (ss, out)"
    and "two_valued (grid s)" and "two_valued (grandfather_grid s)"
  shows "list_all (\<lambda>t. two_valued (grid t) \<and> two_valued (grandfather_grid t)) ss"
  using assms
proof (induction es arbitrary: s ss out)
  case Nil
  then show ?case by auto
next
  case (Cons e es)
  obtain evs o1 where p: "main_pass sp e s = (evs, o1)" by (cases "main_pass sp e s")
  show ?case
  proof (cases o1)
    case (Continue s1)
    obtain ss1 out1 where l: "main_loop sp es s1 = (ss1, out1)"
      by (cases "main_loop sp es s1")
    from p Continue main_pass_two_valued Cons.prems(2,3)
    have f: "two_valued (grid s1)" "two_valued (grandfather_grid s1)" by blast+
    from Cons.IH [OF l f]
    have "list_all (\<lambda>t. two_valued (grid t) \<and> two_valued (grandfather_grid t)) ss1" .
    moreover from Cons.prems(1) p Continue l have "ss = s # ss1" by simp
    ultimately show ?thesis using Cons.prems(2,3) by simp
  next
    case (Returned si)
    with Cons.prems p show ?thesis by auto
  next
    case Exited
    with Cons.prems p show ?thesis by auto
  next
    case (Raised err)
    with Cons.prems p show ?thesis by auto
  qed
qed

text \<open>
  C10. Every cell of every grid the program constructs is \<open>dead_c\<close> or
  \<open>alive_c\<close>, two different characters: this holds of every grid that
  \<open>set_up_grid\<close> returns, of every value that \<open>decide_fate\<close> returns, and of
  the grid and the snapshot of every state of every session of \<open>main\<close>.
\<close>

theorem cells_two_valued:
  "dead_c \<noteq> alive_c
   \<and> (set_up_grid sp rnd m b = Inr g \<longrightarrow> two_valued g)
   \<and> (decide_fate x y n g0 = Inr v \<longrightarrow> v = alive_c \<or> v = dead_c)
   \<and> (main sp rnd m ok si es = Inr (ss, out) \<longrightarrow>
        list_all (\<lambda>t. two_valued (grid t) \<and> two_valued (grandfather_grid t)) ss)"
proof (intro conjI impI)
  show "dead_c \<noteq> alive_c" by (simp add: dead_c_def alive_c_def)
next
  assume "set_up_grid sp rnd m b = Inr g"
  then show "two_valued g" by (rule set_up_grid_two_valued)
next
  assume "decide_fate x y n g0 = Inr v"
  then show "v = alive_c \<or> v = dead_c" by (rule decide_fate_two_valued)
next
  assume "main sp rnd m ok si es = Inr (ss, out)"
  then obtain g1 where a: "set_up_grid sp rnd m True = Inr g1"
    and l: "main_loop sp es (init_state g1 si) = (ss, out)"
    by (auto simp: main_def bnd_eq_Inr)
  from set_up_grid_two_valued [OF a]
  have "two_valued (grid (init_state g1 si))" "two_valued (grandfather_grid (init_state g1 si))"
    by (simp_all add: init_state_def two_valued_def)
  from main_loop_two_valued [OF l this]
  show "list_all (\<lambda>t. two_valued (grid t) \<and> two_valued (grandfather_grid t)) ss" .
qed

theorem cells_two_valued_witness:
  "set_up_grid 50 rnd_id small_window True = Inr seeded4
   \<and> two_valued seeded4
   \<and> decide_fate 1 0 0 seeded4 = Inr dead_c
   \<and> main 50 rnd_id small_window all_ok 10 [env_at (- 1) 10, env_at (- 1) 10, env_at (- 1) 10] =
       Inr ([init_state seeded4 10,
             run_state [''----'', ''-x--'', ''----'', ''----''] seeded4 1,
             run_state dead4 seeded4 2], Returned 10)
   \<and> list_all (\<lambda>t. two_valued (grid t) \<and> two_valued (grandfather_grid t))
        [init_state seeded4 10,
         run_state [''----'', ''-x--'', ''----'', ''----''] seeded4 1,
         run_state dead4 seeded4 2]"
proof -
  let ?ss = "[init_state seeded4 10,
         run_state [''----'', ''-x--'', ''----'', ''----''] seeded4 1,
         run_state dead4 seeded4 2]"
  have a: "set_up_grid 50 rnd_id small_window True = Inr seeded4"
    by code_simp
  have b: "decide_fate 1 0 0 seeded4 = Inr dead_c"
    by code_simp
  have c: "main 50 rnd_id small_window all_ok 10 [env_at (- 1) 10, env_at (- 1) 10, env_at (- 1) 10] =
       Inr (?ss, Returned 10)"
    by code_simp
  note inst = cells_two_valued [of 50 rnd_id small_window True seeded4 1 0 0 seeded4 dead_c
      all_ok 10 "[env_at (- 1) 10, env_at (- 1) 10, env_at (- 1) 10]" ?ss "Returned 10"]
  from inst a have "two_valued seeded4" by blast
  moreover from inst c
  have "list_all (\<lambda>t. two_valued (grid t) \<and> two_valued (grandfather_grid t)) ?ss" by blast
  ultimately show ?thesis using a b c by simp
qed

subsection \<open>The allocated grid and the play area\<close>

lemma rectangular_nth: "rectangular r c g \<Longrightarrow> i < r \<Longrightarrow> length (g ! i) = c"
  by (auto simp: rectangular_def list_all_length)

lemma rectangular_update:
  assumes "rectangular r c g"
  shows "rectangular r c (g[i := (g ! i)[j := v]])"
proof (cases "i < length g")
  case True
  with assms show ?thesis
    by (auto simp: rectangular_def list_all_length nth_list_update)
next
  case False
  then have "g[i := (g ! i)[j := v]] = g" by (intro list_update_beyond) simp
  with assms show ?thesis by simp
qed

lemma rectangular_replicate: "rectangular r c (replicate r (replicate c v))"
  by (simp add: rectangular_def list_all_iff)

lemma seed_loop_rectangular:
  assumes "seed_loop rnd i rows cols k g = Inr g1" and "rectangular r c g"
  shows "rectangular r c g1"
  using assms
proof (induction k arbitrary: i g)
  case 0
  then show ?case by simp
next
  case (Suc k)
  from Suc.prems(1) obtain y x g2 where s: "set_cell g x y alive_c = Inr g2"
    and l: "seed_loop rnd (i + 2) rows cols k g2 = Inr g1"
    by (auto simp: bnd_eq_Inr)
  from set_cell_Inr [OF s] rectangular_update [OF Suc.prems(2)]
  have "rectangular r c g2" by auto
  from Suc.IH [OF l this] show ?case .
qed

lemma set_up_grid_rectangular:
  assumes "set_up_grid sp rnd m b = Inr g" and "get_grid_dimensions m = (cols, rows)"
  shows "rectangular (nat (rows + 1)) (nat (cols + 1)) g"
proof -
  show ?thesis
  proof (cases b)
    case True
    with assms obtain seeds where
      "seed_loop rnd 0 rows cols (nat seeds)
         (replicate (nat (rows + 1)) (replicate (nat (cols + 1)) dead_c)) = Inr g"
      by (auto simp: set_up_grid_def bnd_eq_Inr Let_def split: if_splits)
    with seed_loop_rectangular rectangular_replicate show ?thesis by blast
  next
    case False
    with assms have "g = replicate (nat (rows + 1)) (replicate (nat (cols + 1)) dead_c)"
      by (auto simp: set_up_grid_def bnd_eq_Inr Let_def)
    with rectangular_replicate show ?thesis by simp
  qed
qed

lemma wrap_border_rectangular:
  assumes "rectangular r c g" and "0 < r"
  shows "wrap_border x y g =
     Inr (if x \<ge> int c then x - int c else if x < 0 then int c + x else x,
          if y \<ge> int r then y - int r else if y < 0 then int r + y else y)"
proof -
  from assms have "length g = r" "length (g ! 0) = c"
    by (simp_all add: rectangular_def list_all_length)
  with assms(2) show ?thesis
    by (simp add: wrap_border_def py_getitem_def Let_def)
qed

lemma draw_row_all_ok: "draw_row all_ok y x row = Inr (row_calls y x row)"
proof (induction row arbitrary: x)
  case Nil
  then show ?case by (simp add: row_calls_def)
next
  case (Cons v row)
  have "row_calls y x (v # row) = (y, x, v, colour v) # row_calls y (x + 1) row"
    by (simp add: row_calls_def upt_conv_Cons map_Suc_upt [symmetric] add.assoc del: upt_Suc)
  with Cons show ?case by (simp add: all_ok_def colour_def)
qed

lemma draw_rows_all_ok: "draw_rows all_ok y g = Inr (grid_calls y g)"
proof (induction g arbitrary: y)
  case Nil
  then show ?case by (simp add: grid_calls_def)
next
  case (Cons row g)
  have "grid_calls y (row # g) = row_calls y 1 row @ grid_calls (y + 1) g"
    by (simp add: grid_calls_def upt_conv_Cons map_Suc_upt [symmetric] comp_def add.assoc
        del: upt_Suc)
  with Cons show ?case by (simp add: draw_row_all_ok)
qed

lemma draw_all_ok: "draw all_ok g = Inr (grid_calls 1 g)"
  by (simp add: draw_def draw_rows_all_ok)

text \<open>
  C3, amended. The extra row and column are part of the play area. The grid that
  \<open>set_up_grid\<close> returns for \<open>cols\<close> and \<open>rows\<close> (not negative) has
  \<open>rows + 1\<close> rows of \<open>cols + 1\<close> cells. For every coordinate of it, every
  neighbour lookup resolves to a cell in \<open>[0, cols] \<times> [0, rows]\<close>: the wrap is at
  the allocated size, so the left neighbour of column 0 is column \<open>cols\<close> and the
  upper neighbour of row 0 is row \<open>rows\<close>. \<open>draw\<close> writes every allocated cell
  once, cell \<open>(x, y)\<close> at line \<open>y + 1\<close> and column \<open>x + 1\<close>.
\<close>

theorem allocated_grid_is_play_area:
  assumes "set_up_grid sp rnd m b = Inr g" and "get_grid_dimensions m = (cols, rows)"
    and "0 \<le> cols" and "0 \<le> rows"
    and "0 \<le> x" and "x \<le> cols" and "0 \<le> y" and "y \<le> rows"
    and "- 1 \<le> dx" and "dx \<le> 1" and "- 1 \<le> dy" and "dy \<le> 1"
  shows "(\<exists>x1 y1. wrap_border (x + dx) (y + dy) g = Inr (x1, y1)
            \<and> 0 \<le> x1 \<and> x1 \<le> cols \<and> 0 \<le> y1 \<and> y1 \<le> rows)
     \<and> wrap_border (0 - 1) y g = Inr (cols, y)
     \<and> wrap_border x (0 - 1) g = Inr (x, rows)
     \<and> length g = nat (rows + 1)
     \<and> draw all_ok g = Inr (grid_calls 1 g)
     \<and> map (\<lambda>call. (fst call, fst (snd call))) (grid_calls 1 g) =
         concat (map (\<lambda>i. map (\<lambda>j. (1 + int i, 1 + int j)) [0..<nat (cols + 1)])
                   [0..<nat (rows + 1)])"
proof -
  from set_up_grid_rectangular [OF assms(1,2)]
  have r: "rectangular (nat (rows + 1)) (nat (cols + 1)) g" .
  from assms(4) have p: "0 < nat (rows + 1)" by simp
  note w = wrap_border_rectangular [OF r p]
  have a: "\<exists>x1 y1. wrap_border (x + dx) (y + dy) g = Inr (x1, y1)
            \<and> 0 \<le> x1 \<and> x1 \<le> cols \<and> 0 \<le> y1 \<and> y1 \<le> rows"
    using assms(3-12) by (simp add: w)
  have b: "wrap_border (0 - 1) y g = Inr (cols, y)" "wrap_border x (0 - 1) g = Inr (x, rows)"
    using assms(3-8) by (simp_all add: w)
  from r have len: "length g = nat (rows + 1)" by (simp add: rectangular_def)
  have "map (\<lambda>call. (fst call, fst (snd call))) (row_calls (1 + int i) 1 (g ! i)) =
        map (\<lambda>j. (1 + int i, 1 + int j)) [0..<nat (cols + 1)]" if "i < nat (rows + 1)" for i
    using rectangular_nth [OF r that] by (simp add: row_calls_def)
  then have "map (\<lambda>i. map (\<lambda>call. (fst call, fst (snd call))) (row_calls (1 + int i) 1 (g ! i)))
               [0..<nat (rows + 1)] =
             map (\<lambda>i. map (\<lambda>j. (1 + int i, 1 + int j)) [0..<nat (cols + 1)])
               [0..<nat (rows + 1)]"
    by (intro map_cong) simp_all
  then have e: "concat (map (\<lambda>i. map (\<lambda>call. (fst call, fst (snd call)))
                     (row_calls (1 + int i) 1 (g ! i))) [0..<nat (rows + 1)]) =
             concat (map (\<lambda>i. map (\<lambda>j. (1 + int i, 1 + int j)) [0..<nat (cols + 1)])
               [0..<nat (rows + 1)])"
    by (rule arg_cong)
  have c: "map (\<lambda>call. (fst call, fst (snd call))) (grid_calls 1 g) =
         concat (map (\<lambda>i. map (\<lambda>j. (1 + int i, 1 + int j)) [0..<nat (cols + 1)])
                   [0..<nat (rows + 1)])"
    unfolding grid_calls_def map_concat len map_map comp_def by (rule e)
  from a b len c draw_all_ok show ?thesis by simp
qed

text \<open>
  C3, as stated, fails. In the 13 by 6 window (\<open>cols = rows = 3\<close>) a blinker on
  column 2 becomes one on row 1 with a live cell in column 3, the extra column: that
  cell is drawn, at screen column 4, and it is what the lookup of the left neighbour of
  \<open>(0, 1)\<close> reads. In a 24 by 80 window (\<open>cols = 77\<close>, \<open>rows = 14\<close>) the
  left neighbour of column 0 is column 77 and the upper neighbour of row 0 is row 14.
\<close>

theorem allocated_grid_counterexample:
  "get_grid_dimensions small_window = (3, 3)
   \<and> snd (main_pass 10 (env_at (- 1) 10) (init_state blinker_edge 10))
       = Continue (run_state blinker_over blinker_edge 1)
   \<and> blinker_over ! 1 ! 3 = alive_c
   \<and> wrap_border (0 - 1) 1 blinker_over = Inr (3, 1)
   \<and> get_coordinate_value (0 - 1) 1 blinker_over = Inr True
   \<and> Ev_draw (projr (draw all_ok blinker_over))
       \<in> set (fst (main_pass 10 (env_at (- 1) 10) (init_state blinker_edge 10)))
   \<and> (2, 4, alive_c, 2) \<in> set (projr (draw all_ok blinker_over))
   \<and> get_grid_dimensions (24, 80) = (77, 14)
   \<and> set_up_grid 10 rnd0 (24, 80) False = Inr (replicate 15 (replicate 78 dead_c))
   \<and> wrap_border (0 - 1) 0 (replicate 15 (replicate 78 dead_c)) = Inr (77, 0)
   \<and> wrap_border 0 (0 - 1) (replicate 15 (replicate 78 dead_c)) = Inr (0, 14)"
  by code_simp

theorem allocated_grid_is_play_area_witness:
  "set_up_grid 50 rnd_id small_window True = Inr seeded4
   \<and> get_grid_dimensions small_window = (3, 3)
   \<and> wrap_border (0 + - 1) (0 + - 1) seeded4 = Inr (3, 3)
   \<and> wrap_border (0 - 1) 0 seeded4 = Inr (3, 0)
   \<and> wrap_border 0 (0 - 1) seeded4 = Inr (0, 3)
   \<and> length seeded4 = 4
   \<and> draw all_ok seeded4 = Inr (grid_calls 1 seeded4)
   \<and> map (\<lambda>call. (fst call, fst (snd call))) (grid_calls 1 seeded4) =
       [(1, 1), (1, 2), (1, 3), (1, 4), (2, 1), (2, 2), (2, 3), (2, 4),
        (3, 1), (3, 2), (3, 3), (3, 4), (4, 1), (4, 2), (4, 3), (4, 4)]"
proof -
  have a: "set_up_grid 50 rnd_id small_window True = Inr seeded4"
    by code_simp
  have d: "get_grid_dimensions small_window = (3, 3)"
    by code_simp
  have w: "wrap_border (0 + - 1) (0 + - 1) seeded4 = Inr (3, 3)"
    by code_simp
  have c: "concat (map (\<lambda>i. map (\<lambda>j. (1 + int i, 1 + int j)) [0..<nat (3 + 1)]) [0..<nat (3 + 1)]) =
       [(1, 1), (1, 2), (1, 3), (1, 4), (2, 1), (2, 2), (2, 3), (2, 4),
        (3, 1), (3, 2), (3, 3), (3, 4), (4, 1), (4, 2), (4, 3), (4, 4)]"
    by code_simp
  from allocated_grid_is_play_area [OF a d, of 0 0 "- 1" "- 1"] w c
  show ?thesis using a d by simp
qed

subsection \<open>Seeding\<close>

lemma randint_pos: "0 < n \<Longrightarrow> randint 0 (n - 1) r = Inr (int (r mod nat n))"
  by (simp add: randint_def)

lemma randint_nonpos: "n \<le> 0 \<Longrightarrow> randint 0 (n - 1) r = Inl ValueError"
  by (simp add: randint_def)

lemma set_cell_in_range:
  assumes "a < length g" and "b < length (g ! a)"
  shows "set_cell g (int b) (int a) v = Inr (g[a := (g ! a)[b := v]])"
  using assms by (simp add: set_cell_def py_getitem_def py_setitem_def)

lemma seed_loop_fails:
  assumes "rows \<le> 0 \<or> cols \<le> 0"
  shows "seed_loop rnd i rows cols (Suc k) g = Inl ValueError"
proof (cases "rows \<le> 0")
  case True
  then show ?thesis by (simp add: randint_nonpos)
next
  case False
  with assms have "0 < rows" "cols \<le> 0" by simp_all
  then show ?thesis by (simp add: randint_nonpos randint_pos)
qed

lemma ex_less_Suc_shift:
  "(\<exists>j<Suc k. P j) \<longleftrightarrow> P 0 \<or> (\<exists>j<k. P (Suc j))"
  by (metis less_Suc_eq_0_disj)

lemma seed_loop_cells:
  assumes "rectangular r c g" and "0 < rows" and "0 < cols"
    and "nat rows \<le> r" and "nat cols \<le> c"
  shows "\<exists>g1. seed_loop rnd i rows cols k g = Inr g1 \<and> rectangular r c g1
     \<and> (\<forall>a<r. \<forall>b<c. g1 ! a ! b =
           (if \<exists>j<k. a = rnd (i + 2 * j) mod nat rows \<and> b = rnd (i + 2 * j + 1) mod nat cols
            then alive_c else g ! a ! b))"
  using assms(1)
proof (induction k arbitrary: i g)
  case 0
  then show ?case by simp
next
  case (Suc k)
  let ?y = "rnd i mod nat rows"
  let ?x = "rnd (i + 1) mod nat cols"
  let ?g2 = "g[?y := (g ! ?y)[?x := alive_c]]"
  from assms(2) have "?y < nat rows" by simp
  with assms(4) have y: "?y < r" by simp
  from assms(3) have "?x < nat cols" by simp
  with assms(5) have x: "?x < c" by simp
  from Suc.prems have len: "length g = r" by (simp add: rectangular_def)
  from rectangular_nth [OF Suc.prems y] have lrow: "length (g ! ?y) = c" .
  have s: "set_cell g (int ?x) (int ?y) alive_c = Inr ?g2"
    using y x len lrow by (intro set_cell_in_range) simp_all
  have step: "seed_loop rnd i rows cols (Suc k) g = seed_loop rnd (i + 2) rows cols k ?g2"
    using assms(2,3) s by (simp add: randint_pos)
  from rectangular_update [OF Suc.prems] have r2: "rectangular r c ?g2" .
  from Suc.IH [OF r2, of "i + 2"] obtain g1
    where l: "seed_loop rnd (i + 2) rows cols k ?g2 = Inr g1" and r1: "rectangular r c g1"
      and cells: "\<forall>a<r. \<forall>b<c. g1 ! a ! b =
           (if \<exists>j<k. a = rnd (i + 2 + 2 * j) mod nat rows \<and> b = rnd (i + 2 + 2 * j + 1) mod nat cols
            then alive_c else ?g2 ! a ! b)"
    by blast
  have g2: "?g2 ! a ! b = (if a = ?y \<and> b = ?x then alive_c else g ! a ! b)"
    if "a < r" "b < c" for a b
  proof (cases "a = ?y")
    case True
    with y x len lrow show ?thesis by (simp add: nth_list_update)
  next
    case False
    then show ?thesis by simp
  qed
  have "g1 ! a ! b =
           (if \<exists>j<Suc k. a = rnd (i + 2 * j) mod nat rows \<and> b = rnd (i + 2 * j + 1) mod nat cols
            then alive_c else g ! a ! b)" if ab: "a < r" "b < c" for a b
  proof -
    have sh: "(\<exists>j<Suc k. a = rnd (i + 2 * j) mod nat rows \<and> b = rnd (i + 2 * j + 1) mod nat cols)
       \<longleftrightarrow> (a = ?y \<and> b = ?x)
           \<or> (\<exists>j<k. a = rnd (i + 2 + 2 * j) mod nat rows \<and> b = rnd (i + 2 + 2 * j + 1) mod nat cols)"
      by (simp add: ex_less_Suc_shift [where k = k] add.assoc add.left_commute)
    from cells ab g2 [OF ab] show ?thesis
      unfolding sh by auto
  qed
  with step l r1 show ?case by auto
qed

lemma quotient_of_of_int: "quotient_of (of_int n) = (n, 1)"
  by (metis Rat.of_int_def quotient_of_int)

lemma floor_log2_of_int_le:
  assumes "0 < n" and "n < 2 ^ 63"
  shows "floor_log2 (of_int n) \<le> 62"
proof -
  have "bitlen n \<le> 63" using assms(2) by (simp add: bitlen_le_iff_power)
  moreover have "bitlen 1 = 1" by (simp add: bitlen_alt_def)
  ultimately show ?thesis
    by (simp add: floor_log2_def quotient_of_of_int Let_def)
qed

lemma to_double_of_int:
  assumes "\<bar>n\<bar> < 2 ^ 63"
  shows "\<exists>v. to_double (of_int n) = Inr v"
proof (cases "n = 0")
  case True
  then show ?thesis by (simp add: to_double_def)
next
  case False
  then have "0 < \<bar>n\<bar>" by simp
  from floor_log2_of_int_le [OF this assms]
  have "floor_log2 \<bar>of_int n\<bar> \<le> 62" by (simp flip: of_int_abs)
  then show ?thesis by (simp add: to_double_def Let_def)
qed

lemma seed_count_zero:
  assumes "\<bar>rows * cols\<bar> < 2 ^ 63"
  shows "seed_count 0 rows cols = Inr 0"
proof -
  from to_double_of_int [OF assms] obtain v where "to_double (of_int (rows * cols)) = Inr v" ..
  then show ?thesis
    by (simp add: seed_count_def to_double_def py_int_def)
qed

lemma set_up_grid_unfold:
  assumes "get_grid_dimensions m = (cols, rows)"
  shows "set_up_grid sp rnd m b =
     bnd (seed_count sp rows cols) (\<lambda>seeds.
       if b then (if seeds < - sys_maxint - 1 \<or> sys_maxint < seeds then Inl OverflowError
                  else seed_loop rnd 0 rows cols (nat seeds)
                         (replicate (nat (rows + 1)) (replicate (nat (cols + 1)) dead_c)))
       else Inr (replicate (nat (rows + 1)) (replicate (nat (cols + 1)) dead_c)))"
  using assms by (simp add: set_up_grid_def Let_def)

lemma seed_loop_total:
  assumes "0 < rows" and "0 < cols"
  shows "\<exists>g1. seed_loop rnd 0 rows cols k
            (replicate (nat (rows + 1)) (replicate (nat (cols + 1)) dead_c)) = Inr g1
     \<and> rectangular (nat (rows + 1)) (nat (cols + 1)) g1
     \<and> (\<forall>a<nat (rows + 1). \<forall>b<nat (cols + 1). g1 ! a ! b =
           (if \<exists>j<k. a = rnd (2 * j) mod nat rows \<and> b = rnd (2 * j + 1) mod nat cols
            then alive_c else dead_c))"
proof -
  let ?g = "replicate (nat (rows + 1)) (replicate (nat (cols + 1)) dead_c)"
  have r: "rectangular (nat (rows + 1)) (nat (cols + 1)) ?g" by (rule rectangular_replicate)
  from assms have le: "nat rows \<le> nat (rows + 1)" "nat cols \<le> nat (cols + 1)" by simp_all
  from seed_loop_cells [OF r assms le, of rnd 0 k] obtain g1
    where l: "seed_loop rnd 0 rows cols k ?g = Inr g1"
      and r1: "rectangular (nat (rows + 1)) (nat (cols + 1)) g1"
      and c: "\<forall>a<nat (rows + 1). \<forall>b<nat (cols + 1). g1 ! a ! b =
           (if \<exists>j<k. a = rnd (0 + 2 * j) mod nat rows \<and> b = rnd (0 + 2 * j + 1) mod nat cols
            then alive_c else ?g ! a ! b)"
    by blast
  have "g1 ! a ! b =
           (if \<exists>j<k. a = rnd (2 * j) mod nat rows \<and> b = rnd (2 * j + 1) mod nat cols
            then alive_c else dead_c)" if ab: "a < nat (rows + 1)" "b < nat (cols + 1)" for a b
  proof -
    from ab have "?g ! a ! b = dead_c" by simp
    moreover from c ab have "g1 ! a ! b =
           (if \<exists>j<k. a = rnd (0 + 2 * j) mod nat rows \<and> b = rnd (0 + 2 * j + 1) mod nat cols
            then alive_c else ?g ! a ! b)" by blast
    ultimately show ?thesis by auto
  qed
  with l r1 show ?thesis by blast
qed

text \<open>
  C5, amended. \<open>set_up_grid\<close> checks none of its inputs. Once the trial count
  \<open>k\<close> is computed, whatever the seed percentage: the unseeded grid is always
  returned. When \<open>k\<close> is in the range of \<open>xrange\<close>, from \<open>-sys.maxint - 1\<close>
  to \<open>sys.maxint\<close>: with positive dimensions the seeded grid is returned too; with
  a trial count that is not positive the all-dead grid is returned, also for dimensions
  that are not positive; and the call fails, with the \<open>ValueError\<close> of
  \<open>random.randint\<close>, when a trial is attempted with a dimension that is not
  positive. The only other failure is an \<open>OverflowError\<close>: of the trial count in
  floating point, or of \<open>xrange\<close> on a trial count outside its range.
\<close>

theorem set_up_grid_unchecked:
  assumes "get_grid_dimensions m = (cols, rows)"
  shows "(seed_count sp rows cols = Inl err \<longrightarrow> set_up_grid sp rnd m b = Inl err)
     \<and> (seed_count sp rows cols = Inr k \<longrightarrow>
          set_up_grid sp rnd m False
            = Inr (replicate (nat (rows + 1)) (replicate (nat (cols + 1)) dead_c))
          \<and> (0 < rows \<and> 0 < cols \<and> - sys_maxint - 1 \<le> k \<and> k \<le> sys_maxint \<longrightarrow>
                (\<exists>g. set_up_grid sp rnd m True = Inr g))
          \<and> (- sys_maxint - 1 \<le> k \<and> k \<le> 0 \<longrightarrow> set_up_grid sp rnd m True
                = Inr (replicate (nat (rows + 1)) (replicate (nat (cols + 1)) dead_c)))
          \<and> ((rows \<le> 0 \<or> cols \<le> 0) \<and> 0 < k \<and> k \<le> sys_maxint \<longrightarrow>
                set_up_grid sp rnd m True = Inl ValueError)
          \<and> (k < - sys_maxint - 1 \<or> sys_maxint < k \<longrightarrow>
                set_up_grid sp rnd m True = Inl OverflowError))"
proof (intro conjI impI)
  assume "seed_count sp rows cols = Inl err"
  then show "set_up_grid sp rnd m b = Inl err"
    by (simp add: set_up_grid_unfold [OF assms])
next
  assume "seed_count sp rows cols = Inr k"
  then show "set_up_grid sp rnd m False
            = Inr (replicate (nat (rows + 1)) (replicate (nat (cols + 1)) dead_c))"
    by (simp add: set_up_grid_unfold [OF assms])
next
  assume k: "seed_count sp rows cols = Inr k"
    and h: "0 < rows \<and> 0 < cols \<and> - sys_maxint - 1 \<le> k \<and> k \<le> sys_maxint"
  then have "0 < rows" "0 < cols" by simp_all
  from seed_loop_total [OF this, of rnd "nat k"] k h
  show "\<exists>g. set_up_grid sp rnd m True = Inr g"
    by (auto simp: set_up_grid_unfold [OF assms])
next
  assume "seed_count sp rows cols = Inr k" and "- sys_maxint - 1 \<le> k \<and> k \<le> 0"
  then show "set_up_grid sp rnd m True
                = Inr (replicate (nat (rows + 1)) (replicate (nat (cols + 1)) dead_c))"
    by (simp add: set_up_grid_unfold [OF assms] sys_maxint_def)
next
  assume k: "seed_count sp rows cols = Inr k"
    and d: "(rows \<le> 0 \<or> cols \<le> 0) \<and> 0 < k \<and> k \<le> sys_maxint"
  then obtain n where n: "nat k = Suc n" by (cases "nat k") auto
  from d have "rows \<le> 0 \<or> cols \<le> 0" by simp
  from seed_loop_fails [OF this] k n d
  show "set_up_grid sp rnd m True = Inl ValueError"
    by (simp add: set_up_grid_unfold [OF assms] sys_maxint_def)
next
  assume "seed_count sp rows cols = Inr k" and "k < - sys_maxint - 1 \<or> sys_maxint < k"
  then show "set_up_grid sp rnd m True = Inl OverflowError"
    by (auto simp: set_up_grid_unfold [OF assms])
qed

text \<open>
  C5, as stated, fails: a seed percentage of -5 in a 24 by 80 window and one of 150 in
  the 13 by 6 window both produce a grid, and so does a window of 10 lines, for which
  \<open>rows = 0\<close>.
\<close>

theorem set_up_grid_unchecked_counterexample:
  "seed_count (- 5) 14 77 = Inr (- 53)
   \<and> set_up_grid (- 5) rnd0 (24, 80) True = Inr (replicate 15 (replicate 78 dead_c))
   \<and> seed_count 150 3 3 = Inr 13
   \<and> set_up_grid 150 rnd_id small_window True = Inr seeded4
   \<and> get_grid_dimensions (10, 80) = (77, 0)
   \<and> set_up_grid 10 rnd0 (10, 80) True = Inr [replicate 78 dead_c]"
  by code_simp

theorem set_up_grid_unchecked_witness:
  "set_up_grid 150 rnd_id small_window False = Inr dead4
   \<and> (\<exists>g. set_up_grid 150 rnd_id small_window True = Inr g)
   \<and> set_up_grid (- 5) rnd_id small_window True = Inr dead4
   \<and> get_grid_dimensions (9, 2) = (- 1, - 1)
   \<and> seed_count 100 (- 1) (- 1) = Inr 1
   \<and> set_up_grid 100 rnd_id (9, 2) True = Inl ValueError
   \<and> seed_count (- (10 ^ 18)) 14 77 = Inr (- 10780000000000000000)
   \<and> set_up_grid (- (10 ^ 18)) rnd_id (24, 80) True = Inl OverflowError"
proof -
  have d: "get_grid_dimensions small_window = (3, 3)" "get_grid_dimensions (9, 2) = (- 1, - 1)"
    "get_grid_dimensions (24, 80) = (77, 14)"
    by code_simp+
  have k: "seed_count 150 3 3 = Inr 13" "seed_count (- 5) 3 3 = Inr 0"
    "seed_count 100 (- 1) (- 1) = Inr 1"
    "seed_count (- (10 ^ 18)) 14 77 = Inr (- 10780000000000000000)"
    by code_simp+
  have r: "replicate (nat (3 + 1)) (replicate (nat (3 + 1)) dead_c) = dead4"
    by code_simp
  have b: "(13::int) \<le> sys_maxint" "(1::int) \<le> sys_maxint"
    "- sys_maxint - 1 \<le> (13::int)" "- sys_maxint - 1 \<le> (0::int)"
    "(- 10780000000000000000::int) < - sys_maxint - 1"
    by (simp_all add: sys_maxint_def)
  from set_up_grid_unchecked [OF d(1), of 150 _ rnd_id _ 13] k(1) r b
  have "set_up_grid 150 rnd_id small_window False = Inr dead4"
    "\<exists>g. set_up_grid 150 rnd_id small_window True = Inr g"
    by simp_all
  moreover from set_up_grid_unchecked [OF d(1), of "- 5" _ rnd_id _ 0] k(2) r b
  have "set_up_grid (- 5) rnd_id small_window True = Inr dead4"
    by simp
  moreover from set_up_grid_unchecked [OF d(3), of "- (10 ^ 18)" _ rnd_id _
      "- 10780000000000000000"] k(4) b
  have "set_up_grid (- (10 ^ 18)) rnd_id (24, 80) True = Inl OverflowError"
    by simp
  moreover from set_up_grid_unchecked [OF d(2), of 100 _ rnd_id _ 1] k(3) b
  have "set_up_grid 100 rnd_id (9, 2) True = Inl ValueError"
    by simp
  ultimately show ?thesis using d k by simp
qed

lemma length_filter_mod:
  assumes "v < n"
  shows "length (filter (\<lambda>r. r mod n = v) [0..<n * k]) = k"
proof (induction k)
  case 0
  then show ?case by simp
next
  case (Suc k)
  have blk: "[n * k..<n * k + n] = map (\<lambda>i. i + n * k) [0..<n]"
    using map_add_upt [of "n * k" n] by (simp add: add.commute)
  have same: "filter (\<lambda>i. (i + n * k) mod n = v) [0..<n] = filter (\<lambda>i. i = v) [0..<n]"
  proof (rule filter_cong)
    show "[0..<n] = [0..<n]" ..
    show "((x + n * k) mod n = v) = (x = v)" if "x \<in> set [0..<n]" for x
      using that by simp
  qed
  have "filter (\<lambda>r. r mod n = v) [n * k..<n * k + n]
      = map (\<lambda>i. i + n * k) (filter (\<lambda>i. (i + n * k) mod n = v) [0..<n])"
    by (simp only: blk filter_map comp_def)
  then have "length (filter (\<lambda>r. r mod n = v) [n * k..<n * k + n])
      = length (filter (\<lambda>i. i = v) [0..<n])"
    by (simp only: same length_map)
  also have "\<dots> = card ({i. i = v} \<inter> set [0..<n])"
    by (rule distinct_length_filter) simp
  also have "{i. i = v} \<inter> set [0..<n] = {v}" using assms by auto
  finally have one: "length (filter (\<lambda>r. r mod n = v) [n * k..<n * k + n]) = 1" by simp
  have "[0..<n * Suc k] = [0..<n * k] @ [n * k..<n * k + n]"
    using upt_add_eq_append [of 0 "n * k" n] by (simp add: add.commute)
  with Suc one show ?case by simp
qed

lemma randint_uniform:
  assumes "a \<le> v" and "v \<le> b"
  shows "length (filter (\<lambda>r. randint a b r = Inr v) [0..<nat (b - a + 1) * k]) = k"
proof -
  from assms have v: "nat (v - a) < nat (b - a + 1)" by simp
  have "(randint a b r = Inr v) = (r mod nat (b - a + 1) = nat (v - a))" for r
    using assms by (auto simp: randint_def)
  then show ?thesis using length_filter_mod [OF v, of k] by simp
qed

lemma filter_product:
  "filter (\<lambda>(p, q). P p \<and> Q q) (List.product xs ys) = List.product (filter P xs) (filter Q ys)"
  by (induction xs) (auto simp: filter_map comp_def)

lemma trial_uniform:
  assumes "0 < rows" and "0 < cols" and "0 \<le> x" and "x < cols" and "0 \<le> y" and "y < rows"
  shows "length (filter (\<lambda>(ry, rx). randint 0 (rows - 1) ry = Inr y
                                    \<and> randint 0 (cols - 1) rx = Inr x)
                   (List.product [0..<nat rows * n] [0..<nat cols * n])) = n * n"
proof -
  from assms have "length (filter (\<lambda>r. randint 0 (rows - 1) r = Inr y)
                            [0..<nat (rows - 1 - 0 + 1) * n]) = n"
    by (intro randint_uniform) simp_all
  moreover from assms have "length (filter (\<lambda>r. randint 0 (cols - 1) r = Inr x)
                                     [0..<nat (cols - 1 - 0 + 1) * n]) = n"
    by (intro randint_uniform) simp_all
  ultimately show ?thesis by (simp add: filter_product)
qed

lemma trial_cell_randint:
  assumes "0 < rows" and "0 < cols"
  shows "(trial_cell rnd rows cols j = (x, y)) =
     (randint 0 (rows - 1) (rnd (2 * j)) = Inr y \<and> randint 0 (cols - 1) (rnd (2 * j + 1)) = Inr x)"
  using assms by (auto simp: trial_cell_def randint_pos)

text \<open>
  C6, amended. For positive dimensions and a trial count \<open>k\<close>, the double-precision
  product \<open>(seed_percentage / 100.0) * (rows * cols)\<close> truncated toward zero, in the
  range of \<open>xrange\<close>, \<open>set_up_grid\<close> performs exactly \<open>k\<close> trials (none when
  \<open>k\<close> is not positive): it returns a grid of \<open>rows + 1\<close> by \<open>cols + 1\<close> cells
  in which exactly the cells picked by the trials \<open>0, \<dots>, k - 1\<close> are alive and all
  others dead. Trial \<open>j\<close> picks \<open>y\<close> with \<open>random.randint(0, rows - 1)\<close> and
  then \<open>x\<close> with \<open>random.randint(0, cols - 1)\<close>, a cell in
  \<open>[0, cols) \<times> [0, rows)\<close>, uniformly: of the pairs of numbers that the generator
  can draw, over any number \<open>n\<close> of whole periods of the two ranges, every cell is
  picked by equally many, \<open>n * n\<close>. Outside the range of \<open>xrange\<close> the call
  raises \<open>OverflowError\<close>. With a seed percentage of 0 the trial count is 0 and the
  grid is all dead.
\<close>

theorem seeding_trials:
  "(get_grid_dimensions m = (cols, rows) \<and> 0 < rows \<and> 0 < cols
      \<and> seed_count sp rows cols = Inr k \<and> - sys_maxint - 1 \<le> k \<and> k \<le> sys_maxint \<longrightarrow>
      (\<exists>g. set_up_grid sp rnd m True = Inr g
         \<and> rectangular (nat (rows + 1)) (nat (cols + 1)) g
         \<and> (\<forall>x y. 0 \<le> x \<and> x \<le> cols \<and> 0 \<le> y \<and> y \<le> rows \<longrightarrow>
               g ! nat y ! nat x =
                 (if \<exists>j<nat k. trial_cell rnd rows cols j = (x, y) then alive_c else dead_c)))
      \<and> (\<forall>j. 0 \<le> fst (trial_cell rnd rows cols j) \<and> fst (trial_cell rnd rows cols j) < cols
             \<and> 0 \<le> snd (trial_cell rnd rows cols j) \<and> snd (trial_cell rnd rows cols j) < rows)
      \<and> (\<forall>j x y. (trial_cell rnd rows cols j = (x, y)) =
             (randint 0 (rows - 1) (rnd (2 * j)) = Inr y
              \<and> randint 0 (cols - 1) (rnd (2 * j + 1)) = Inr x))
      \<and> (\<forall>x y n. 0 \<le> x \<and> x < cols \<and> 0 \<le> y \<and> y < rows \<longrightarrow>
             length (filter (\<lambda>(ry, rx). randint 0 (rows - 1) ry = Inr y
                                        \<and> randint 0 (cols - 1) rx = Inr x)
                       (List.product [0..<nat rows * n] [0..<nat cols * n])) = n * n))
   \<and> (get_grid_dimensions m = (cols, rows) \<and> seed_count sp rows cols = Inr k
        \<and> (k < - sys_maxint - 1 \<or> sys_maxint < k) \<longrightarrow>
        set_up_grid sp rnd m True = Inl OverflowError)
   \<and> (get_grid_dimensions m = (cols, rows) \<and> \<bar>rows * cols\<bar> < 2 ^ 63 \<longrightarrow>
        seed_count 0 rows cols = Inr 0
        \<and> set_up_grid 0 rnd m True
            = Inr (replicate (nat (rows + 1)) (replicate (nat (cols + 1)) dead_c)))"
proof (intro conjI impI)
  assume h: "get_grid_dimensions m = (cols, rows) \<and> 0 < rows \<and> 0 < cols
      \<and> seed_count sp rows cols = Inr k \<and> - sys_maxint - 1 \<le> k \<and> k \<le> sys_maxint"
  then have d: "get_grid_dimensions m = (cols, rows)" and p: "0 < rows" "0 < cols"
    and k: "seed_count sp rows cols = Inr k"
    and km: "- sys_maxint - 1 \<le> k" "k \<le> sys_maxint" by simp_all
  from seed_loop_total [OF p, of rnd "nat k"] obtain g
    where l: "seed_loop rnd 0 rows cols (nat k)
            (replicate (nat (rows + 1)) (replicate (nat (cols + 1)) dead_c)) = Inr g"
      and r: "rectangular (nat (rows + 1)) (nat (cols + 1)) g"
      and c: "\<forall>a<nat (rows + 1). \<forall>b<nat (cols + 1). g ! a ! b =
           (if \<exists>j<nat k. a = rnd (2 * j) mod nat rows \<and> b = rnd (2 * j + 1) mod nat cols
            then alive_c else dead_c)"
    by blast
  have s: "set_up_grid sp rnd m True = Inr g"
    using k km l by (simp add: set_up_grid_unfold [OF d])
  have "g ! nat y ! nat x =
      (if \<exists>j<nat k. trial_cell rnd rows cols j = (x, y) then alive_c else dead_c)"
    if xy: "0 \<le> x \<and> x \<le> cols \<and> 0 \<le> y \<and> y \<le> rows" for x y
  proof -
    from xy have b: "nat y < nat (rows + 1)" "nat x < nat (cols + 1)" by simp_all
    have "(trial_cell rnd rows cols j = (x, y)) =
        (nat y = rnd (2 * j) mod nat rows \<and> nat x = rnd (2 * j + 1) mod nat cols)" for j
      using xy by (auto simp: trial_cell_def)
    with c b show ?thesis by simp
  qed
  with s r show "\<exists>g. set_up_grid sp rnd m True = Inr g
         \<and> rectangular (nat (rows + 1)) (nat (cols + 1)) g
         \<and> (\<forall>x y. 0 \<le> x \<and> x \<le> cols \<and> 0 \<le> y \<and> y \<le> rows \<longrightarrow>
               g ! nat y ! nat x =
                 (if \<exists>j<nat k. trial_cell rnd rows cols j = (x, y) then alive_c else dead_c))"
    by blast
  from p show "\<forall>j. 0 \<le> fst (trial_cell rnd rows cols j) \<and> fst (trial_cell rnd rows cols j) < cols
             \<and> 0 \<le> snd (trial_cell rnd rows cols j) \<and> snd (trial_cell rnd rows cols j) < rows"
    by (simp add: trial_cell_def nat_less_iff [symmetric] zless_nat_eq_int_zless [symmetric])
  from p show "\<forall>j x y. (trial_cell rnd rows cols j = (x, y)) =
             (randint 0 (rows - 1) (rnd (2 * j)) = Inr y
              \<and> randint 0 (cols - 1) (rnd (2 * j + 1)) = Inr x)"
    by (simp add: trial_cell_randint)
  from p show "\<forall>x y n. 0 \<le> x \<and> x < cols \<and> 0 \<le> y \<and> y < rows \<longrightarrow>
             length (filter (\<lambda>(ry, rx). randint 0 (rows - 1) ry = Inr y
                                        \<and> randint 0 (cols - 1) rx = Inr x)
                       (List.product [0..<nat rows * n] [0..<nat cols * n])) = n * n"
    by (simp add: trial_uniform)
next
  assume "get_grid_dimensions m = (cols, rows) \<and> seed_count sp rows cols = Inr k
        \<and> (k < - sys_maxint - 1 \<or> sys_maxint < k)"
  then show "set_up_grid sp rnd m True = Inl OverflowError"
    by (auto simp: set_up_grid_unfold)
next
  assume "get_grid_dimensions m = (cols, rows) \<and> \<bar>rows * cols\<bar> < 2 ^ 63"
  then show "seed_count 0 rows cols = Inr 0" by (simp add: seed_count_zero)
next
  assume h: "get_grid_dimensions m = (cols, rows) \<and> \<bar>rows * cols\<bar> < 2 ^ 63"
  then have "seed_count 0 rows cols = Inr 0" by (simp add: seed_count_zero)
  with h show "set_up_grid 0 rnd m True
            = Inr (replicate (nat (rows + 1)) (replicate (nat (cols + 1)) dead_c))"
    by (simp add: set_up_grid_unfold sys_maxint_def)
qed

text \<open>
  C6, as stated, fails: the product is truncated, not rounded. At the default 10 percent
  in a 24 by 80 window the program makes 107 trials where the rounded product is 108, and
  at 50 percent in the 13 by 6 window 4 trials where the rounded product is 5. At a seed
  percentage of \<open>10^18\<close> the count is beyond \<open>sys.maxint\<close> and the call makes no
  trial at all: it raises \<open>OverflowError\<close>.
\<close>

theorem seeding_trials_counterexample:
  "get_grid_dimensions (24, 80) = (77, 14)
   \<and> seed_count 10 14 77 = Inr 107
   \<and> spec_trials (10 / 100) 14 77 = 108
   \<and> seed_count 50 3 3 = Inr 4
   \<and> spec_trials (50 / 100) 3 3 = 5
   \<and> spec_trials (10 ^ 18 / 100) 14 77 = 10780000000000000000
   \<and> set_up_grid (10 ^ 18) rnd0 (24, 80) True = Inl OverflowError"
  by code_simp

theorem seeding_trials_witness:
  "set_up_grid 50 rnd_id small_window True = Inr seeded4
   \<and> seed_count 50 3 3 = Inr 4
   \<and> map (trial_cell rnd_id 3 3) [0, 1, 2, 3] = [(1, 0), (0, 2), (2, 1), (1, 0)]
   \<and> seeded4 ! nat 0 ! nat 1 = alive_c
   \<and> length (filter (\<lambda>(ry, rx). randint 0 (3 - 1) ry = Inr 0 \<and> randint 0 (3 - 1) rx = Inr 1)
               (List.product [0..<nat 3 * 2] [0..<nat 3 * 2])) = 2 * 2
   \<and> seed_count 0 3 3 = Inr 0
   \<and> set_up_grid 0 rnd_id small_window True = Inr dead4"
proof -
  have a: "set_up_grid 50 rnd_id small_window True = Inr seeded4"
    by code_simp
  have d: "get_grid_dimensions small_window = (3, 3)"
    by code_simp
  have k: "seed_count 50 3 3 = Inr 4"
    by code_simp
  have t: "map (trial_cell rnd_id 3 3) [0, 1, 2, 3] = [(1, 0), (0, 2), (2, 1), (1, 0)]"
    by code_simp
  have r: "replicate (nat (3 + 1)) (replicate (nat (3 + 1)) dead_c) = dead4"
    by code_simp
  have b: "(4::int) \<le> sys_maxint" "- sys_maxint - 1 \<le> (4::int)"
    by (simp_all add: sys_maxint_def)
  note inst = seeding_trials [of small_window 3 3 50 4 rnd_id]
  from inst d k a b
  have "\<forall>x y. 0 \<le> x \<and> x \<le> 3 \<and> 0 \<le> y \<and> y \<le> 3 \<longrightarrow>
               seeded4 ! nat y ! nat x =
                 (if \<exists>j<nat 4. trial_cell rnd_id 3 3 j = (x, y) then alive_c else dead_c)"
    by auto
  from this [rule_format, of 1 0] have "seeded4 ! nat 0 ! nat 1 =
      (if \<exists>j<nat 4. trial_cell rnd_id 3 3 j = (1, 0) then alive_c else dead_c)"
    by simp
  moreover from t have "\<exists>j<nat 4. trial_cell rnd_id 3 3 j = (1, 0)"
    by (intro exI [of _ 0]) simp
  ultimately have c: "seeded4 ! nat 0 ! nat 1 = alive_c" by simp
  have h: "get_grid_dimensions small_window = (3, 3) \<and> 0 < (3::int) \<and> 0 < (3::int)
      \<and> seed_count 50 3 3 = Inr 4 \<and> - sys_maxint - 1 \<le> 4 \<and> 4 \<le> sys_maxint"
    using d k b by simp
  note first = inst [THEN conjunct1, THEN mp, OF h]
  from first [THEN conjunct2, THEN conjunct2, THEN conjunct2, rule_format, of 1 0 2]
  have u: "length (filter (\<lambda>(ry, rx). randint 0 (3 - 1) ry = Inr 0 \<and> randint 0 (3 - 1) rx = Inr 1)
               (List.product [0..<nat 3 * 2] [0..<nat 3 * 2])) = 2 * 2"
    by simp
  from inst d r
  have z: "seed_count 0 3 3 = Inr 0" "set_up_grid 0 rnd_id small_window True = Inr dead4"
    by simp_all
  show ?thesis
    using a k t c u z by (intro conjI)
qed

subsection \<open>The rounding of the trial count\<close>

text \<open>
  \<open>floor_log2\<close> is the binary exponent of a positive rational, and \<open>to_double\<close>
  returns a number within half a unit in the last place of its argument.
\<close>

lemma pow2_power_int: "pow2 e = 2 powi e"
  by (simp add: pow2_def power_int_def power_inverse [symmetric] inverse_eq_divide power_one_over)

lemma pow2_pos: "0 < pow2 e"
  by (simp add: pow2_power_int)

lemma pow2_add: "pow2 (a + b) = pow2 a * pow2 b"
  by (simp add: pow2_power_int power_int_add)

lemma pow2_mono: "a \<le> b \<Longrightarrow> pow2 a \<le> pow2 b"
  by (simp add: pow2_power_int power_int_increasing)

lemma pow2_nat: "pow2 (int n) = 2 ^ n"
  by (simp add: pow2_def)

lemma int_between_pow2:
  assumes "0 < a"
  shows "pow2 (bitlen a - 1) \<le> of_int a \<and> of_int a < pow2 (bitlen a)"
proof -
  from bitlen_bounds [OF assms]
  have b: "2 ^ nat (bitlen a - 1) \<le> a" "a < 2 ^ nat (bitlen a)" by simp_all
  from assms have p: "1 \<le> bitlen a" by (simp add: bitlen_alt_def)
  from b(1) have "(of_int (2 ^ nat (bitlen a - 1)) :: rat) \<le> of_int a"
    by (simp only: of_int_le_iff)
  moreover from b(2) have "(of_int a :: rat) < of_int (2 ^ nat (bitlen a))"
    by (simp only: of_int_less_iff)
  ultimately show ?thesis using p by (simp add: pow2_def)
qed

lemma floor_log2_bounds:
  assumes "0 < q"
  shows "pow2 (floor_log2 q) \<le> q \<and> q < pow2 (floor_log2 q + 1)"
proof -
  obtain a b where ab: "quotient_of q = (a, b)" by (cases "quotient_of q")
  then have b: "0 < b" and q: "q = of_int a / of_int b"
    by (simp_all add: quotient_of_denom_pos quotient_of_div)
  with assms have a: "0 < a" by (simp add: zero_less_divide_iff)
  let ?e = "bitlen a - bitlen b"
  from int_between_pow2 [OF a] int_between_pow2 [OF b]
  have ba: "pow2 (bitlen a - 1) \<le> of_int a" "of_int a < pow2 (bitlen a)"
    and bb: "pow2 (bitlen b - 1) \<le> of_int b" "of_int b < pow2 (bitlen b)" by simp_all
  have lo: "pow2 (?e - 1) \<le> q"
  proof -
    have "pow2 (?e - 1) * of_int b \<le> pow2 (?e - 1) * pow2 (bitlen b)"
      using bb(2) pow2_pos [of "?e - 1"] by simp
    also have "\<dots> = pow2 (bitlen a - 1)" by (simp add: pow2_add [symmetric])
    also have "\<dots> \<le> of_int a" by (rule ba(1))
    finally show ?thesis using b by (simp add: q pos_le_divide_eq)
  qed
  have hi: "q < pow2 (?e + 1)"
  proof -
    have "of_int a < pow2 (bitlen a)" by (rule ba(2))
    also have "\<dots> = pow2 (?e + 1) * pow2 (bitlen b - 1)" by (simp add: pow2_add [symmetric])
    also have "\<dots> \<le> pow2 (?e + 1) * of_int b"
      using bb(1) pow2_pos [of "?e + 1"] by simp
    finally show ?thesis using b by (simp add: q pos_divide_less_eq)
  qed
  show ?thesis
  proof (cases "pow2 ?e \<le> q")
    case True
    with hi ab show ?thesis by (simp add: floor_log2_def Let_def)
  next
    case False
    with lo ab show ?thesis by (simp add: floor_log2_def Let_def)
  qed
qed

lemma round_half_even_near: "\<bar>of_int (round_half_even q) - q\<bar> \<le> 1 / 2"
proof -
  have "of_int \<lfloor>q\<rfloor> \<le> q" "q < of_int \<lfloor>q\<rfloor> + 1" by linarith+
  then show ?thesis
    by (auto simp: round_half_even_def Let_def abs_le_iff)
qed

lemma to_double_near:
  assumes "to_double q = Inr r"
  shows "\<bar>r - q\<bar> \<le> pow2 (floor_log2 \<bar>q\<bar> - 53)"
proof (cases "q = 0")
  case True
  with assms show ?thesis using pow2_pos [of "floor_log2 \<bar>q\<bar> - 53"] by (simp add: to_double_def)
next
  case False
  let ?e = "floor_log2 \<bar>q\<bar>"
  let ?m = "round_half_even (\<bar>q\<bar> * pow2 (52 - ?e))"
  from assms False have r: "r = sgn q * (of_int ?m * pow2 (?e - 52))"
    by (simp add: to_double_def Let_def split: if_splits)
  have one: "pow2 (52 - ?e) * pow2 (?e - 52) = 1"
    by (simp add: pow2_add [symmetric] pow2_def)
  have "r - q = sgn q * (of_int ?m * pow2 (?e - 52) - \<bar>q\<bar>)"
    by (simp add: r right_diff_distrib sgn_mult_abs)
  also have "of_int ?m * pow2 (?e - 52) - \<bar>q\<bar>
      = (of_int ?m - \<bar>q\<bar> * pow2 (52 - ?e)) * pow2 (?e - 52)"
    using one by (simp add: left_diff_distrib mult.assoc)
  finally have "\<bar>r - q\<bar> = \<bar>of_int ?m - \<bar>q\<bar> * pow2 (52 - ?e)\<bar> * pow2 (?e - 52)"
    using False pow2_pos [of "?e - 52"] by (simp add: abs_mult abs_sgn_eq)
  also have "\<dots> \<le> (1 / 2) * pow2 (?e - 52)"
    using round_half_even_near [of "\<bar>q\<bar> * pow2 (52 - ?e)"] pow2_pos [of "?e - 52"]
    by (intro mult_right_mono) simp_all
  also have "\<dots> = pow2 (?e - 53)"
  proof -
    have "pow2 (?e - 52) = pow2 (?e - 53) * pow2 1"
      by (simp add: pow2_add [symmetric])
    then show ?thesis by (simp add: pow2_def)
  qed
  finally show ?thesis .
qed

end
